theory Spec2Isabelle
  imports Main
begin

section \<open>The record store of the question-and-answer program (ask-me/AskMe.cpp)\<close>

text \<open>
  The development embeds the persistent record store of \<^verbatim>\<open>AskMe.cpp\<close>: the two entity
  classes \<^verbatim>\<open>User\<close> and \<^verbatim>\<open>Question\<close> with their line encoding, the tokenizer and the
  loaders of \<^verbatim>\<open>FileManager\<close>, and the operations of \<^verbatim>\<open>UserManager\<close> and
  \<^verbatim>\<open>QuestionManager\<close>.

  A C++ \<^verbatim>\<open>int\<close> is a HOL \<^typ>\<open>int\<close>; the 32-bit range is written out where the source
  depends on it (\<^verbatim>\<open>std::stoi\<close> throws outside it, the addition that makes the next id
  wraps around). A \<^verbatim>\<open>std::string\<close> is a
  \<^typ>\<open>string\<close>. An \<^verbatim>\<open>unordered_map<int, T>\<close> is a list of key-value pairs with
  pairwise distinct keys, whose order stands for the unspecified iteration order of the
  container. Every \<^verbatim>\<open>return false\<close>, \<^verbatim>\<open>continue\<close> and caught exception of the source is
  a branch of the model.
\<close>

subsection \<open>Characters and numbers in text\<close>

definition comma :: char where
  "comma = CHR '',''"

definition dquote :: char where
  "dquote = CHR 0x22"

text \<open>\<^verbatim>\<open>isspace\<close> and \<^verbatim>\<open>isdigit\<close> in the C locale.\<close>

definition isspace :: "char \<Rightarrow> bool" where
  "isspace c = (c = CHR '' '' \<or> (9 \<le> (of_char c :: nat) \<and> (of_char c :: nat) \<le> 13))"

definition isdigit :: "char \<Rightarrow> bool" where
  "isdigit c = (48 \<le> (of_char c :: nat) \<and> (of_char c :: nat) \<le> 57)"

definition digit_char :: "nat \<Rightarrow> char" where
  "digit_char d = char_of (48 + d)"

definition digit_val :: "char \<Rightarrow> nat" where
  "digit_val c = of_char c - 48"

text \<open>The decimal digits of a natural number, most significant first.\<close>

fun digits :: "nat \<Rightarrow> string" where
  "digits n = (if n < 10 then [digit_char n] else digits (n div 10) @ [digit_char (n mod 10)])"

declare digits.simps [simp del]

text \<open>\<^verbatim>\<open>std::to_string(int)\<close>: decimal, with a minus sign for a negative value.\<close>

definition to_string :: "int \<Rightarrow> string" where
  "to_string i = (if i < 0 then CHR ''-'' # digits (nat (- i)) else digits (nat i))"

text \<open>The value of a digit string read left to right, as \<^verbatim>\<open>strtol\<close> accumulates it.\<close>

fun digits_value :: "nat \<Rightarrow> string \<Rightarrow> nat" where
  "digits_value acc [] = acc"
| "digits_value acc (c # cs) = digits_value (10 * acc + digit_val c) cs"

datatype exn = invalid_argument | out_of_range | runtime_error

definition INT_MIN :: int where
  "INT_MIN = - 2147483648"

definition INT_MAX :: int where
  "INT_MAX = 2147483647"

definition int_range :: "int \<Rightarrow> bool" where
  "int_range i = (INT_MIN \<le> i \<and> i \<le> INT_MAX)"

text \<open>
  The \<^verbatim>\<open>int\<close> that holds the result of an addition of two \<^verbatim>\<open>int\<close>s: the sum itself when
  it is in the range, and the sum modulo \<open>2^32\<close> in two's complement when it is not, which
  is what the compiled program computes where C++ leaves the overflow undefined.
\<close>

definition int_wrap :: "int \<Rightarrow> int" where
  "int_wrap x = (x + 2147483648) mod 4294967296 - 2147483648"

text \<open>
  \<^verbatim>\<open>std::stoi(str)\<close> (base 10): leading white space is skipped, one optional sign is read,
  then the longest run of digits; what follows the digits is ignored. No digit at all
  throws \<^verbatim>\<open>invalid_argument\<close>, a value that does not fit an \<^verbatim>\<open>int\<close> throws
  \<^verbatim>\<open>out_of_range\<close>.
\<close>

definition stoi :: "string \<Rightarrow> exn + int" where
  "stoi str =
     (let s1 = dropWhile isspace str;
          neg = (case s1 of c # _ \<Rightarrow> c = CHR ''-'' | [] \<Rightarrow> False);
          s2 = (case s1 of c # cs \<Rightarrow> (if c = CHR ''-'' \<or> c = CHR ''+'' then cs else s1) | [] \<Rightarrow> s1);
          ds = takeWhile isdigit s2
      in if ds = [] then Inl invalid_argument
         else let v = (if neg then - int (digits_value 0 ds) else int (digits_value 0 ds))
              in if v < INT_MIN \<or> INT_MAX < v then Inl out_of_range else Inr v)"

subsection \<open>The entity classes\<close>

datatype Role = ADMIN | REGULAR_USER

text \<open>The enumerators' values, as \<^verbatim>\<open>to_string(role)\<close> prints them.\<close>

fun Role_value :: "Role \<Rightarrow> int" where
  "Role_value ADMIN = 0"
| "Role_value REGULAR_USER = 1"

record User =
  u_id :: int
  u_name :: string
  u_password :: string
  u_username :: string
  u_email :: string
  u_allow_anonymous_questions :: bool
  u_role :: Role

record Question =
  q_id :: int
  q_parent_id :: int
  q_from_user_id :: int
  q_to_user_id :: int
  q_is_anonymous :: bool
  q_text :: string
  q_answer :: string

text \<open>The default constructors.\<close>

definition User_default :: User where
  "User_default = \<lparr>u_id = 0, u_name = [], u_password = [], u_username = [], u_email = [],
     u_allow_anonymous_questions = False, u_role = REGULAR_USER\<rparr>"

definition Question_default :: Question where
  "Question_default = \<lparr>q_id = 0, q_parent_id = - 1, q_from_user_id = 0, q_to_user_id = 0,
     q_is_anonymous = False, q_text = [], q_answer = []\<rparr>"

definition flag_string :: "bool \<Rightarrow> string" where
  "flag_string b = (if b then ''1'' else ''0'')"

text \<open>\<^verbatim>\<open>User::toString\<close>: the fields joined by commas, each text field as it is.\<close>

definition User_toString :: "User \<Rightarrow> string" where
  "User_toString u =
     to_string (u_id u) @ '','' @ u_name u @ '','' @ u_password u @ '','' @ u_username u @ '',''
     @ u_email u @ '','' @ flag_string (u_allow_anonymous_questions u) @ '',''
     @ to_string (Role_value (u_role u))"

text \<open>
  The loop of \<^verbatim>\<open>Question::escapeCommas\<close> replaces every double quote of the string, from
  left to right, by two double quotes.
\<close>

fun double_quotes :: "string \<Rightarrow> string" where
  "double_quotes [] = []"
| "double_quotes (c # cs) =
     (if c = dquote then dquote # dquote # double_quotes cs else c # double_quotes cs)"

definition escapeCommas :: "string \<Rightarrow> string" where
  "escapeCommas str =
     (if comma \<in> set str then [dquote] @ double_quotes str @ [dquote] else str)"

definition Question_toString :: "Question \<Rightarrow> string" where
  "Question_toString q =
     to_string (q_id q) @ '','' @ to_string (q_parent_id q) @ '',''
     @ to_string (q_from_user_id q) @ '','' @ to_string (q_to_user_id q) @ '',''
     @ flag_string (q_is_anonymous q) @ '','' @ escapeCommas (q_text q) @ '',''
     @ escapeCommas (q_answer q)"

subsection \<open>The tokenizer\<close>

text \<open>
  \<^verbatim>\<open>FileManager::split\<close> scans the line once. A double quote toggles \<^verbatim>\<open>inQuotes\<close> and
  is not copied; the delimiter outside quotes closes the current token; any other
  character is appended to the current token.
\<close>

fun split_loop :: "string \<Rightarrow> char \<Rightarrow> string list \<Rightarrow> string \<Rightarrow> bool \<Rightarrow> string list" where
  "split_loop [] delimiter tokens currentToken inQuotes = tokens @ [currentToken]"
| "split_loop (c # cs) delimiter tokens currentToken inQuotes =
     (if c = dquote then split_loop cs delimiter tokens currentToken (\<not> inQuotes)
      else if c = delimiter \<and> \<not> inQuotes then split_loop cs delimiter (tokens @ [currentToken]) [] inQuotes
      else split_loop cs delimiter tokens (currentToken @ [c]) inQuotes)"

definition split :: "string \<Rightarrow> char \<Rightarrow> string list" where
  "split str delimiter = split_loop str delimiter [] [] False"

subsection \<open>The container\<close>

text \<open>
  The operations of \<^verbatim>\<open>unordered_map<int, T>\<close> that the program calls. \<open>umap_index\<close>
  is a read through \<^verbatim>\<open>operator[]\<close>, which inserts a default value under a missing key;
  \<open>umap_assign\<close> is \<^verbatim>\<open>m[k] = v\<close>.
\<close>

type_synonym 'v umap = "(int \<times> 'v) list"

definition umap_count :: "'v umap \<Rightarrow> int \<Rightarrow> bool" where
  "umap_count m k = (k \<in> set (map fst m))"

definition umap_find :: "'v umap \<Rightarrow> int \<Rightarrow> 'v option" where
  "umap_find m k = map_of m k"

definition umap_emplace :: "'v umap \<Rightarrow> int \<Rightarrow> 'v \<Rightarrow> bool \<times> 'v umap" where
  "umap_emplace m k v = (if umap_count m k then (False, m) else (True, m @ [(k, v)]))"

definition umap_erase :: "'v umap \<Rightarrow> int \<Rightarrow> nat \<times> 'v umap" where
  "umap_erase m k = ((if umap_count m k then 1 else 0), filter (\<lambda>p. fst p \<noteq> k) m)"

fun umap_assign :: "'v umap \<Rightarrow> int \<Rightarrow> 'v \<Rightarrow> 'v umap" where
  "umap_assign [] k v = [(k, v)]"
| "umap_assign (p # m) k v = (if fst p = k then (k, v) # m else p # umap_assign m k v)"

definition umap_index :: "'v umap \<Rightarrow> int \<Rightarrow> 'v \<Rightarrow> 'v \<times> 'v umap" where
  "umap_index m k dflt =
     (case map_of m k of Some v \<Rightarrow> (v, m) | None \<Rightarrow> (dflt, m @ [(k, dflt)]))"

subsection \<open>Files\<close>

text \<open>
  A file is the sequence of its lines, as \<^verbatim>\<open>getline\<close> reads them and as
  \<^verbatim>\<open>StoreInformationOnFile\<close> writes them. The disk maps a path to its file, if there is
  one, and knows the paths that cannot be opened for writing.
\<close>

record Disk =
  files :: "string \<Rightarrow> string list option"
  unwritable :: "string set"

record FileManager =
  users_file_path :: string
  questions_file_path :: string

definition FileManager_default :: FileManager where
  "FileManager_default = \<lparr>users_file_path = ''users.txt'', questions_file_path = ''questions.txt''\<rparr>"

definition ReadInformationFromFile :: "Disk \<Rightarrow> string \<Rightarrow> string list" where
  "ReadInformationFromFile d file_path =
     (case files d file_path of
        None \<Rightarrow> []
      | Some file_lines \<Rightarrow> filter (\<lambda>line. line \<noteq> []) file_lines)"

definition StoreInformationOnFile :: "Disk \<Rightarrow> string \<Rightarrow> string list \<Rightarrow> bool \<times> Disk" where
  "StoreInformationOnFile d file_path lines =
     (if file_path \<in> unwritable d then (False, d)
      else (True, d\<lparr>files := (files d)(file_path \<mapsto> lines)\<rparr>))"

subsection \<open>Loading and saving\<close>

text \<open>
  The body of the loop of \<^verbatim>\<open>LoadUsers\<close>, up to the \<^verbatim>\<open>emplace\<close>: a line is skipped
  for having fewer than seven tokens, or because \<^verbatim>\<open>stoi\<close> threw inside the
  \<^verbatim>\<open>try\<close> block; otherwise it yields the account that is emplaced.
\<close>

datatype skipped = not_enough_tokens | parse_exception exn

definition User_of_line :: "string \<Rightarrow> skipped + User" where
  "User_of_line line =
     (let tokens = split line comma
      in if length tokens < 7 then Inl not_enough_tokens
         else case stoi (tokens ! 0) of
                Inl e \<Rightarrow> Inl (parse_exception e)
              | Inr i \<Rightarrow>
                  Inr \<lparr>u_id = i, u_name = tokens ! 1, u_password = tokens ! 2,
                       u_username = tokens ! 3, u_email = tokens ! 4,
                       u_allow_anonymous_questions = (tokens ! 5 = ''1'' \<or> tokens ! 5 = ''true''),
                       u_role = (if tokens ! 6 = ''0'' then ADMIN else REGULAR_USER)\<rparr>)"

fun LoadUsers_loop :: "string list \<Rightarrow> User umap \<Rightarrow> User umap" where
  "LoadUsers_loop [] users = users"
| "LoadUsers_loop (line # lines) users =
     (case User_of_line line of
        Inl _ \<Rightarrow> LoadUsers_loop lines users
      | Inr u \<Rightarrow> LoadUsers_loop lines (snd (umap_emplace users (u_id u) u)))"

definition LoadUsers :: "FileManager \<Rightarrow> Disk \<Rightarrow> User umap" where
  "LoadUsers fm d = LoadUsers_loop (ReadInformationFromFile d (users_file_path fm)) []"

text \<open>
  The body of the loop of \<^verbatim>\<open>LoadQuestions\<close>: six tokens are required, the four numbers
  are converted in the order of the source, and a missing seventh token is an empty
  answer.
\<close>

definition Question_of_line :: "string \<Rightarrow> skipped + Question" where
  "Question_of_line line =
     (let tokens = split line comma
      in if length tokens < 6 then Inl not_enough_tokens
         else case stoi (tokens ! 0) of
                Inl e \<Rightarrow> Inl (parse_exception e)
              | Inr i \<Rightarrow>
           (case stoi (tokens ! 1) of
                Inl e \<Rightarrow> Inl (parse_exception e)
              | Inr parentId \<Rightarrow>
           (case stoi (tokens ! 2) of
                Inl e \<Rightarrow> Inl (parse_exception e)
              | Inr fromUserId \<Rightarrow>
           (case stoi (tokens ! 3) of
                Inl e \<Rightarrow> Inl (parse_exception e)
              | Inr toUserId \<Rightarrow>
                  Inr \<lparr>q_id = i, q_parent_id = parentId, q_from_user_id = fromUserId,
                       q_to_user_id = toUserId,
                       q_is_anonymous = (tokens ! 4 = ''1'' \<or> tokens ! 4 = ''true''),
                       q_text = tokens ! 5,
                       q_answer = (if 7 \<le> length tokens then tokens ! 6 else [])\<rparr>))))"

fun LoadQuestions_loop :: "string list \<Rightarrow> Question umap \<Rightarrow> Question umap" where
  "LoadQuestions_loop [] questions = questions"
| "LoadQuestions_loop (line # lines) questions =
     (case Question_of_line line of
        Inl _ \<Rightarrow> LoadQuestions_loop lines questions
      | Inr q \<Rightarrow> LoadQuestions_loop lines (snd (umap_emplace questions (q_id q) q)))"

definition LoadQuestions :: "FileManager \<Rightarrow> Disk \<Rightarrow> Question umap" where
  "LoadQuestions fm d = LoadQuestions_loop (ReadInformationFromFile d (questions_file_path fm)) []"

definition SaveUsers :: "FileManager \<Rightarrow> Disk \<Rightarrow> User umap \<Rightarrow> bool \<times> Disk" where
  "SaveUsers fm d users =
     StoreInformationOnFile d (users_file_path fm) (map (\<lambda>pair. User_toString (snd pair)) users)"

definition SaveQuestions :: "FileManager \<Rightarrow> Disk \<Rightarrow> Question umap \<Rightarrow> bool \<times> Disk" where
  "SaveQuestions fm d questions =
     StoreInformationOnFile d (questions_file_path fm)
       (map (\<lambda>pair. Question_toString (snd pair)) questions)"

text \<open>
  The accounts and the questions that the lines of a file yield, in the order of the
  file, skipped lines left out.
\<close>

definition users_in_lines :: "string list \<Rightarrow> User list" where
  "users_in_lines lines =
     concat (map (\<lambda>line. case User_of_line line of Inl _ \<Rightarrow> [] | Inr u \<Rightarrow> [u]) lines)"

definition questions_in_lines :: "string list \<Rightarrow> Question list" where
  "questions_in_lines lines =
     concat (map (\<lambda>line. case Question_of_line line of Inl _ \<Rightarrow> [] | Inr q \<Rightarrow> [q]) lines)"

text \<open>
  A line is well formed when it has the number of fields that its loader requires and
  \<^verbatim>\<open>stoi\<close> converts each field that the loader converts.
\<close>

definition converts :: "string \<Rightarrow> bool" where
  "converts str = (case stoi str of Inl e \<Rightarrow> False | Inr i \<Rightarrow> True)"

definition user_line_well_formed :: "string \<Rightarrow> bool" where
  "user_line_well_formed line =
     (let tokens = split line comma in 7 \<le> length tokens \<and> converts (tokens ! 0))"

definition question_line_well_formed :: "string \<Rightarrow> bool" where
  "question_line_well_formed line =
     (let tokens = split line comma
      in 6 \<le> length tokens \<and> converts (tokens ! 0) \<and> converts (tokens ! 1)
         \<and> converts (tokens ! 2) \<and> converts (tokens ! 3))"

text \<open>Emplacing a sequence of key-value pairs one after the other, as both loaders do.\<close>

fun emplace_all :: "(int \<times> 'v) list \<Rightarrow> 'v umap \<Rightarrow> 'v umap" where
  "emplace_all [] m = m"
| "emplace_all (kv # kvs) m = emplace_all kvs (snd (umap_emplace m (fst kv) (snd kv)))"

subsection \<open>The program state\<close>

text \<open>
  \<open>users\<close> is the collection of \<^verbatim>\<open>UserManager\<close>, \<open>questions\<close> the collection of
  \<^verbatim>\<open>QuestionManager\<close>, which reaches the accounts through its reference to the
  \<^verbatim>\<open>UserManager\<close>. Both managers hold a \<^verbatim>\<open>FileManager\<close> with the same two paths.
\<close>

record AskMe =
  users :: "User umap"
  questions :: "Question umap"
  file_manager :: FileManager
  disk :: Disk

subsection \<open>UserManager\<close>

definition GetUserByID :: "User umap \<Rightarrow> int \<Rightarrow> exn + User" where
  "GetUserByID us user_id =
     (case umap_find us user_id of None \<Rightarrow> Inl runtime_error | Some u \<Rightarrow> Inr u)"

definition AddUser :: "AskMe \<Rightarrow> User \<Rightarrow> bool \<times> AskMe" where
  "AddUser s user =
     (let (inserted, us) = umap_emplace (users s) (u_id user) user
      in if \<not> inserted then (False, s\<lparr>users := us\<rparr>)
         else let (ok, d) = SaveUsers (file_manager s) (disk s) us
              in (ok, s\<lparr>users := us, disk := d\<rparr>))"

text \<open>
  \<^verbatim>\<open>GetNextUserID\<close>: the loop starts \<^verbatim>\<open>maxId\<close> at 0 and takes the maximum with every
  key; \<^verbatim>\<open>maxId + 1\<close> is an addition of \<^verbatim>\<open>int\<close>s.
\<close>

definition GetNextUserID :: "User umap \<Rightarrow> int" where
  "GetNextUserID us =
     (if us = [] then 1
      else int_wrap (foldl (\<lambda>maxId pair. max maxId (fst pair)) 0 us + 1))"

definition DeleteUser :: "AskMe \<Rightarrow> int \<Rightarrow> bool \<times> AskMe" where
  "DeleteUser s user_id =
     (let (erased, us) = umap_erase (users s) user_id
      in if erased \<noteq> 0
         then let (ok, d) = SaveUsers (file_manager s) (disk s) us
              in (ok, s\<lparr>users := us, disk := d\<rparr>)
         else (False, s\<lparr>users := us\<rparr>))"

subsection \<open>QuestionManager\<close>

text \<open>
  \<^verbatim>\<open>std::max_element\<close> with the comparison of the keys: the first of the largest
  elements of a non-empty range.
\<close>

definition max_element :: "'v umap \<Rightarrow> int \<times> 'v" where
  "max_element m = foldl (\<lambda>largest pair. if fst largest < fst pair then pair else largest) (hd m) (tl m)"

definition GetNextQuestionID :: "Question umap \<Rightarrow> int" where
  "GetNextQuestionID qs = (if qs = [] then 1 else int_wrap (fst (max_element qs) + 1))"

definition AddQuestion :: "AskMe \<Rightarrow> Question \<Rightarrow> bool \<times> AskMe" where
  "AddQuestion s question =
     (if umap_count (questions s) (q_id question) then (False, s)
      else case GetUserByID (users s) (q_to_user_id question) of
             Inl e \<Rightarrow> (False, s)
           | Inr recipient \<Rightarrow>
               if q_is_anonymous question \<and> \<not> u_allow_anonymous_questions recipient
               then (False, s)
               else let qs = umap_assign (questions s) (q_id question) question;
                        (ok, d) = SaveQuestions (file_manager s) (disk s) qs
                    in (ok, s\<lparr>questions := qs, disk := d\<rparr>))"

text \<open>
  What \<^verbatim>\<open>AskQuestion\<close> reads from the console: the recipient, the answer to "is this a
  follow-up question", the parent id (\<open>None\<close> when the extraction \<^verbatim>\<open>cin >> parent_id\<close>
  fails), the text and the answer to "ask anonymously".
\<close>

record AskInput =
  in_to_user_id :: int
  in_follow_up :: char
  in_parent_id :: "int option"
  in_text :: string
  in_anonymous :: char

definition tolower :: "char \<Rightarrow> char" where
  "tolower c =
     (if 65 \<le> (of_char c :: nat) \<and> (of_char c :: nat) \<le> 90 then char_of ((of_char c :: nat) + 32) else c)"

definition AskQuestion :: "AskMe \<Rightarrow> User \<Rightarrow> AskInput \<Rightarrow> AskMe" where
  "AskQuestion s current_user inp =
     (if in_to_user_id inp = - 1 then s
      else case GetUserByID (users s) (in_to_user_id inp) of
             Inl e \<Rightarrow> s
           | Inr recipient \<Rightarrow>
               let parent_id =
                     (if tolower (in_follow_up inp) = CHR ''y''
                      then (case in_parent_id inp of
                              None \<Rightarrow> - 1
                            | Some p \<Rightarrow> if \<not> umap_count (questions s) p then - 1 else p)
                      else - 1);
                   is_anonymous =
                     (if u_allow_anonymous_questions recipient
                      then tolower (in_anonymous inp) = CHR ''y'' else False);
                   question = \<lparr>q_id = GetNextQuestionID (questions s), q_parent_id = parent_id,
                     q_from_user_id = u_id current_user, q_to_user_id = in_to_user_id inp,
                     q_is_anonymous = is_anonymous, q_text = in_text inp, q_answer = []\<rparr>
               in snd (AddQuestion s question))"

text \<open>
  \<^verbatim>\<open>GetThreadQuestions\<close> prints; the model returns what is printed: the cancellation,
  the error for a parent that does not exist, or the questions of the thread in the
  order of the iteration.
\<close>

datatype listing = canceled | parent_does_not_exist | threads "Question list"

definition GetThreadQuestions :: "AskMe \<Rightarrow> int \<Rightarrow> listing" where
  "GetThreadQuestions s parent_id =
     (if parent_id = - 1 then canceled
      else if \<not> umap_count (questions s) parent_id then parent_does_not_exist
      else threads (map snd (filter (\<lambda>pair. q_parent_id (snd pair) = parent_id) (questions s))))"

text \<open>The second loop of \<^verbatim>\<open>DeleteThreadQuestions\<close>, over the collected ids.\<close>

fun delete_each_thread :: "int list \<Rightarrow> User \<Rightarrow> Question umap \<Rightarrow> Question umap" where
  "delete_each_thread [] current_user qs = qs"
| "delete_each_thread (thread_id # rest) current_user qs =
     (let (thread, qs1) = umap_index qs thread_id Question_default
      in if q_from_user_id thread \<noteq> u_id current_user \<and> u_role current_user = REGULAR_USER
         then delete_each_thread rest current_user qs1
         else delete_each_thread rest current_user (snd (umap_erase qs1 thread_id)))"

definition DeleteThreadQuestions :: "AskMe \<Rightarrow> int \<Rightarrow> User \<Rightarrow> AskMe" where
  "DeleteThreadQuestions s parent_id current_user =
     (let threads_to_delete =
            map fst (filter (\<lambda>pair. q_parent_id (snd pair) = parent_id) (questions s));
          qs = delete_each_thread threads_to_delete current_user (questions s)
      in if threads_to_delete \<noteq> []
         then s\<lparr>questions := qs, disk := snd (SaveQuestions (file_manager s) (disk s) qs)\<rparr>
         else s\<lparr>questions := qs\<rparr>)"

definition DeleteQuestion :: "AskMe \<Rightarrow> int \<Rightarrow> User \<Rightarrow> bool \<times> AskMe" where
  "DeleteQuestion s question_id current_user =
     (if \<not> umap_count (questions s) question_id then (False, s)
      else let (question, qs1) = umap_index (questions s) question_id Question_default;
               s1 = s\<lparr>questions := qs1\<rparr>
           in if q_from_user_id question \<noteq> u_id current_user \<and> u_role current_user = REGULAR_USER
              then (False, s1)
              else let s2 = DeleteThreadQuestions s1 question_id current_user;
                       qs2 = snd (umap_erase (questions s2) question_id);
                       (ok, d) = SaveQuestions (file_manager s2) (disk s2) qs2
                   in (ok, s2\<lparr>questions := qs2, disk := d\<rparr>))"

subsection \<open>Example data\<close>

text \<open>
  Three accounts: an administrator, a member who accepts anonymous questions and a
  member who does not. One top-level question of member B with two replies, the first
  by member C, the second by B.
\<close>

definition user_A :: User where
  "user_A = \<lparr>u_id = 1, u_name = ''A'', u_password = ''admin123'', u_username = ''admin'',
     u_email = ''admin@test.com'', u_allow_anonymous_questions = True, u_role = ADMIN\<rparr>"

definition user_B :: User where
  "user_B = \<lparr>u_id = 2, u_name = ''B'', u_password = ''user123'', u_username = ''user1'',
     u_email = ''user1@test.com'', u_allow_anonymous_questions = True, u_role = REGULAR_USER\<rparr>"

definition user_C :: User where
  "user_C = \<lparr>u_id = 3, u_name = ''C'', u_password = ''pass123'', u_username = ''user2'',
     u_email = ''user2@test.com'', u_allow_anonymous_questions = False, u_role = REGULAR_USER\<rparr>"

definition question_1 :: Question where
  "question_1 = \<lparr>q_id = 1, q_parent_id = - 1, q_from_user_id = 2, q_to_user_id = 1,
     q_is_anonymous = False, q_text = ''What is your favorite color?'', q_answer = ''Blue''\<rparr>"

definition question_2 :: Question where
  "question_2 = \<lparr>q_id = 2, q_parent_id = 1, q_from_user_id = 3, q_to_user_id = 1,
     q_is_anonymous = False, q_text = ''Why blue?'', q_answer = []\<rparr>"

definition question_3 :: Question where
  "question_3 = \<lparr>q_id = 3, q_parent_id = 1, q_from_user_id = 2, q_to_user_id = 1,
     q_is_anonymous = False, q_text = ''Follow up question'', q_answer = []\<rparr>"

definition example_disk :: Disk where
  "example_disk =
     \<lparr>files = (\<lambda>file_path.
        if file_path = ''users.txt''
        then Some (map User_toString [user_A, user_B, user_C])
        else if file_path = ''questions.txt''
        then Some (map Question_toString [question_1, question_2, question_3])
        else None),
      unwritable = {}\<rparr>"

definition example_state :: AskMe where
  "example_state = \<lparr>users = [(1, user_A), (2, user_B), (3, user_C)],
     questions = [(1, question_1), (2, question_2), (3, question_3)],
     file_manager = FileManager_default, disk = example_disk\<rparr>"

definition anonymous_to_C :: Question where
  "anonymous_to_C = \<lparr>q_id = 4, q_parent_id = - 1, q_from_user_id = 1, q_to_user_id = 3,
     q_is_anonymous = True, q_text = ''Should be blocked'', q_answer = []\<rparr>"

text \<open>The repository after question 1 has gone while its reply 2 stayed.\<close>

definition dangling_state :: AskMe where
  "dangling_state = example_state\<lparr>questions := [(2, question_2)]\<rparr>"

text \<open>A reply to a question that does not exist.\<close>

definition orphan_reply :: Question where
  "orphan_reply = \<lparr>q_id = 4, q_parent_id = 42, q_from_user_id = 3, q_to_user_id = 1,
     q_is_anonymous = False, q_text = ''Thread question'', q_answer = []\<rparr>"

text \<open>Two runs of the ask dialogue: a follow-up to the missing id 42, and one to id 1.\<close>

definition ask_about_42 :: AskInput where
  "ask_about_42 = \<lparr>in_to_user_id = 1, in_follow_up = CHR ''y'', in_parent_id = Some 42,
     in_text = ''Thread question'', in_anonymous = CHR ''n''\<rparr>"

definition ask_about_1 :: AskInput where
  "ask_about_1 = \<lparr>in_to_user_id = 1, in_follow_up = CHR ''Y'', in_parent_id = Some 1,
     in_text = ''Thread question'', in_anonymous = CHR ''n''\<rparr>"

text \<open>Records whose text holds double quotes or commas.\<close>

definition quoting_question :: Question where
  \<open>quoting_question = \<lparr>q_id = 5, q_parent_id = - 1, q_from_user_id = 2, q_to_user_id = 1,
     q_is_anonymous = False, q_text = ''say "hi"'', q_answer = ''yes, "hi"''\<rparr>\<close>

definition comma_user :: User where
  "comma_user = \<lparr>u_id = 4, u_name = ''Doe, John'', u_password = ''pw'', u_username = ''jd'',
     u_email = ''jd@test.com'', u_allow_anonymous_questions = True, u_role = ADMIN\<rparr>"

text \<open>Repositories with the ids 3 and 7.\<close>

definition users_3_7 :: "User umap" where
  "users_3_7 = [(3, user_C), (7, user_B\<lparr>u_id := 7\<rparr>)]"

definition questions_3_7 :: "Question umap" where
  "questions_3_7 = [(3, question_3), (7, question_1\<lparr>q_id := 7\<rparr>)]"

text \<open>
  A users file and a questions file with lines that are too short, an empty line and
  lines whose id or parent id is not a number.
\<close>

definition damaged_users_file :: "string list" where
  "damaged_users_file =
     [''1,Admin User,admin123,admin,admin@test.com,1,0'',
      ''2,Regular User,user123,user1,user1@test.com'',
      '''',
      ''x,Nobody,nopass,nobody,nobody@test.com,0,1'',
      ''3,No Anon User,pass123,user2,user2@test.com,0,1'']"

definition damaged_questions_file :: "string list" where
  "damaged_questions_file =
     [''1,-1,2,1,0,What is your favorite color?,Blue is my favorite'',
      ''2,-1,1,2,1'',
      ''3,one,1,2,0,Follow up question,This is a follow up'',
      ''4,1,1,2,0,Follow up question'']"

definition damaged_disk :: Disk where
  "damaged_disk =
     \<lparr>files = (\<lambda>file_path.
        if file_path = ''users.txt'' then Some damaged_users_file
        else if file_path = ''questions.txt'' then Some damaged_questions_file
        else None),
      unwritable = {}\<rparr>"

text \<open>Files in which the id 1 occurs on two lines.\<close>

definition repeated_users_file :: "string list" where
  "repeated_users_file =
     [''1,Admin User,admin123,admin,admin@test.com,1,0'',
      ''1,Impostor,secret,imp,imp@test.com,0,1'',
      ''3,No Anon User,pass123,user2,user2@test.com,0,1'']"

definition repeated_questions_file :: "string list" where
  "repeated_questions_file =
     [''1,-1,2,1,0,What is your favorite color?,Blue is my favorite'',
      ''3,1,1,2,0,Follow up question,This is a follow up'',
      ''1,-1,3,1,1,How are you today?,'']"

definition repeated_disk :: Disk where
  "repeated_disk =
     \<lparr>files = (\<lambda>file_path.
        if file_path = ''users.txt'' then Some repeated_users_file
        else if file_path = ''questions.txt'' then Some repeated_questions_file
        else None),
      unwritable = {}\<rparr>"

text \<open>The records of the first lines of these files, and of the last account line.\<close>

definition admin_user :: User where
  "admin_user = \<lparr>u_id = 1, u_name = ''Admin User'', u_password = ''admin123'', u_username = ''admin'',
     u_email = ''admin@test.com'', u_allow_anonymous_questions = True, u_role = ADMIN\<rparr>"

definition color_question :: Question where
  "color_question = \<lparr>q_id = 1, q_parent_id = - 1, q_from_user_id = 2, q_to_user_id = 1,
     q_is_anonymous = False, q_text = ''What is your favorite color?'',
     q_answer = ''Blue is my favorite''\<rparr>"

definition no_anon_user :: User where
  "no_anon_user = \<lparr>u_id = 3, u_name = ''No Anon User'', u_password = ''pass123'',
     u_username = ''user2'', u_email = ''user2@test.com'', u_allow_anonymous_questions = False,
     u_role = REGULAR_USER\<rparr>"

section \<open>Properties\<close>

subsection \<open>The container operations\<close>

lemma umap_count_map_of: "umap_count m k \<longleftrightarrow> map_of m k \<noteq> None"
  by (simp add: umap_count_def map_of_eq_None_iff)

lemma map_of_erase: "map_of (snd (umap_erase m k)) k' = (if k' = k then None else map_of m k')"
  by (induction m) (auto simp: umap_erase_def)

lemma keys_erase: "set (map fst (snd (umap_erase m k))) = set (map fst m) - {k}"
  by (auto simp: umap_erase_def)

lemma distinct_erase: "distinct (map fst m) \<Longrightarrow> distinct (map fst (snd (umap_erase m k)))"
  by (simp add: umap_erase_def distinct_map_filter)

lemma map_of_assign: "map_of (umap_assign m k v) k' = (if k' = k then Some v else map_of m k')"
  by (induction m) auto

lemma keys_assign: "set (map fst (umap_assign m k v)) = insert k (set (map fst m))"
  by (induction m) auto

lemma distinct_assign: "distinct (map fst m) \<Longrightarrow> distinct (map fst (umap_assign m k v))"
  by (induction m) (auto simp: keys_assign[simplified])

lemma umap_index_present: "map_of m k = Some v \<Longrightarrow> umap_index m k dflt = (v, m)"
  by (simp add: umap_index_def)

lemma map_of_emplace:
  "map_of (snd (umap_emplace m k v)) k' =
     (case map_of m k' of Some w \<Rightarrow> Some w | None \<Rightarrow> if k' = k then Some v else None)"
  by (auto simp: umap_emplace_def umap_count_map_of map_add_def split: option.splits)

lemma distinct_emplace: "distinct (map fst m) \<Longrightarrow> distinct (map fst (snd (umap_emplace m k v)))"
  by (auto simp: umap_emplace_def umap_count_def)

lemma not_regular: "(r \<noteq> REGULAR_USER) = (r = ADMIN)"
  by (cases r) auto

subsection \<open>The anonymous gate\<close>

text \<open>
  Claim C4. Whatever the state, when the new entry is anonymous and its recipient
  exists but does not accept anonymous questions, \<^verbatim>\<open>AddQuestion\<close> returns false and
  leaves the whole state as it was: the thread collection and the disk are unchanged.
\<close>

theorem AddQuestion_anonymous_refused:
  "q_is_anonymous question \<Longrightarrow> umap_find (users s) (q_to_user_id question) = Some recipient
   \<Longrightarrow> \<not> u_allow_anonymous_questions recipient \<Longrightarrow> AddQuestion s question = (False, s)"
  by (simp add: AddQuestion_def GetUserByID_def)

theorem AddQuestion_anonymous_refused_witness:
  "q_is_anonymous anonymous_to_C
   \<and> umap_find (users example_state) (q_to_user_id anonymous_to_C) = Some user_C
   \<and> \<not> u_allow_anonymous_questions user_C
   \<and> AddQuestion example_state anonymous_to_C = (False, example_state)"
proof -
  have a: "q_is_anonymous anonymous_to_C"
    by (simp add: anonymous_to_C_def)
  have r: "umap_find (users example_state) (q_to_user_id anonymous_to_C) = Some user_C"
    by (simp add: anonymous_to_C_def example_state_def umap_find_def)
  have n: "\<not> u_allow_anonymous_questions user_C"
    by (simp add: user_C_def)
  from a r n AddQuestion_anonymous_refused [OF a r n] show ?thesis
    by simp
qed

subsection \<open>Cascading deletion\<close>

lemma delete_each_thread_lookup:
  "distinct (map fst qs) \<Longrightarrow> distinct ts \<Longrightarrow> set ts \<subseteq> set (map fst qs) \<Longrightarrow>
   map_of (delete_each_thread ts actor qs) k =
     (case map_of qs k of
        None \<Rightarrow> None
      | Some q \<Rightarrow> if k \<in> set ts \<and> (q_from_user_id q = u_id actor \<or> u_role actor = ADMIN)
                  then None else Some q)"
proof (induction ts arbitrary: qs)
  case Nil
  then show ?case by (simp split: option.splits)
next
  case (Cons t ts)
  from Cons.prems obtain q where q: "map_of qs t = Some q"
    by (auto simp: map_of_eq_None_iff[symmetric])
  have idx: "umap_index qs t Question_default = (q, qs)"
    using q by (rule umap_index_present)
  show ?case
  proof (cases "q_from_user_id q \<noteq> u_id actor \<and> u_role actor = REGULAR_USER")
    case True
    then have "delete_each_thread (t # ts) actor qs = delete_each_thread ts actor qs"
      by (simp add: idx)
    moreover have "map_of (delete_each_thread ts actor qs) k =
      (case map_of qs k of None \<Rightarrow> None
       | Some q \<Rightarrow> if k \<in> set ts \<and> (q_from_user_id q = u_id actor \<or> u_role actor = ADMIN)
                   then None else Some q)"
      using Cons.prems by (intro Cons.IH) auto
    ultimately show ?thesis
      using True q by (auto split: option.splits)
  next
    case False
    let ?qs' = "snd (umap_erase qs t)"
    have step: "delete_each_thread (t # ts) actor qs = delete_each_thread ts actor ?qs'"
      using False by (auto simp: idx)
    have "map_of (delete_each_thread ts actor ?qs') k =
      (case map_of ?qs' k of None \<Rightarrow> None
       | Some q \<Rightarrow> if k \<in> set ts \<and> (q_from_user_id q = u_id actor \<or> u_role actor = ADMIN)
                   then None else Some q)"
      using Cons.prems by (intro Cons.IH) (auto simp: distinct_erase keys_erase[simplified])
    with step False q show ?thesis
      by (auto simp: map_of_erase not_regular split: option.splits)
  qed
qed

lemma map_of_filter_key:
  assumes d: "distinct (map fst qs)" and m: "map_of qs k = Some q"
  shows "(k \<in> set (map fst (filter (\<lambda>pair. P (snd pair)) qs))) = P q"
proof -
  have mem: "(k, q) \<in> set qs"
    using m by (rule map_of_SomeD)
  have uniq: "q' = q" if "(k, q') \<in> set qs" for q'
    using map_of_is_SomeI[OF d that] m by simp
  show ?thesis
  proof
    assume "k \<in> set (map fst (filter (\<lambda>pair. P (snd pair)) qs))"
    then obtain q' where "(k, q') \<in> set qs" "P q'" by auto
    then show "P q" using uniq by blast
  next
    assume "P q"
    with mem have "(k, q) \<in> set (filter (\<lambda>pair. P (snd pair)) qs)" by simp
    then show "k \<in> set (map fst (filter (\<lambda>pair. P (snd pair)) qs))"
      by (metis fst_conv image_eqI set_map)
  qed
qed

lemma DeleteThreadQuestions_lookup:
  assumes "distinct (map fst (questions s))"
  shows "map_of (questions (DeleteThreadQuestions s parent_id actor)) k =
     (case map_of (questions s) k of
        None \<Rightarrow> None
      | Some q \<Rightarrow> if q_parent_id q = parent_id \<and> (q_from_user_id q = u_id actor \<or> u_role actor = ADMIN)
                  then None else Some q)"
proof -
  let ?ts = "map fst (filter (\<lambda>pair. q_parent_id (snd pair) = parent_id) (questions s))"
  have "questions (DeleteThreadQuestions s parent_id actor) = delete_each_thread ?ts actor (questions s)"
    by (simp add: DeleteThreadQuestions_def Let_def)
  moreover have "distinct ?ts"
    using assms by (simp add: distinct_map_filter)
  moreover have "set ?ts \<subseteq> set (map fst (questions s))"
    by auto
  ultimately have "map_of (questions (DeleteThreadQuestions s parent_id actor)) k =
     (case map_of (questions s) k of
        None \<Rightarrow> None
      | Some q \<Rightarrow> if k \<in> set ?ts \<and> (q_from_user_id q = u_id actor \<or> u_role actor = ADMIN)
                  then None else Some q)"
    using assms by (simp add: delete_each_thread_lookup)
  then show ?thesis
    using map_of_filter_key[OF assms, of k _ "\<lambda>q. q_parent_id q = parent_id"]
    by (auto split: option.splits)
qed

lemma DeleteQuestion_lookup:
  assumes d: "distinct (map fst (questions s))"
    and P: "umap_find (questions s) question_id = Some P"
    and ok: "q_from_user_id P = u_id actor \<or> u_role actor = ADMIN"
  shows "umap_find (questions (snd (DeleteQuestion s question_id actor))) k =
     (case umap_find (questions s) k of
        None \<Rightarrow> None
      | Some q \<Rightarrow> if k = question_id \<or> (q_parent_id q = question_id
                       \<and> (q_from_user_id q = u_id actor \<or> u_role actor = ADMIN))
                  then None else Some q)"
proof -
  have c: "umap_count (questions s) question_id"
    using P by (simp add: umap_count_map_of umap_find_def)
  have idx: "umap_index (questions s) question_id Question_default = (P, questions s)"
    using P by (simp add: umap_index_present umap_find_def)
  let ?s2 = "DeleteThreadQuestions s question_id actor"
  have "questions (snd (DeleteQuestion s question_id actor)) = snd (umap_erase (questions ?s2) question_id)"
    using c ok by (auto simp: DeleteQuestion_def idx Let_def split: prod.splits)
  then show ?thesis
    using DeleteThreadQuestions_lookup[OF d, of question_id actor k]
    by (auto simp: umap_find_def map_of_erase split: option.splits)
qed

text \<open>
  Claim C2. In a repository (keys pairwise distinct), deleting an id that is absent
  returns false and changes nothing. Deleting an entry \<open>P\<close> as its author, or as an
  administrator, removes \<open>P\<close> and every entry whose parent id is the id of \<open>P\<close> and that
  the actor authored (every such entry when the actor is an administrator); a reply that
  someone else authored is skipped for an actor who is not an administrator and stays,
  and so does every other entry.
\<close>

theorem DeleteQuestion_cascade:
  assumes "distinct (map fst (questions s))"
  shows "(\<not> umap_count (questions s) question_id \<longrightarrow>
            DeleteQuestion s question_id actor = (False, s))
       \<and> (\<forall>P k. umap_find (questions s) question_id = Some P
                 \<and> (q_from_user_id P = u_id actor \<or> u_role actor = ADMIN) \<longrightarrow>
            umap_find (questions (snd (DeleteQuestion s question_id actor))) k =
              (case umap_find (questions s) k of
                 None \<Rightarrow> None
               | Some q \<Rightarrow> if k = question_id \<or> (q_parent_id q = question_id
                                \<and> (q_from_user_id q = u_id actor \<or> u_role actor = ADMIN))
                           then None else Some q))"
proof (intro conjI impI allI)
  assume "\<not> umap_count (questions s) question_id"
  then show "DeleteQuestion s question_id actor = (False, s)"
    by (simp add: DeleteQuestion_def)
next
  fix P k
  assume "umap_find (questions s) question_id = Some P
    \<and> (q_from_user_id P = u_id actor \<or> u_role actor = ADMIN)"
  then show "umap_find (questions (snd (DeleteQuestion s question_id actor))) k =
      (case umap_find (questions s) k of
         None \<Rightarrow> None
       | Some q \<Rightarrow> if k = question_id \<or> (q_parent_id q = question_id
                        \<and> (q_from_user_id q = u_id actor \<or> u_role actor = ADMIN))
                   then None else Some q)"
    using DeleteQuestion_lookup [OF assms, of question_id P actor k] by blast
qed

theorem DeleteQuestion_cascade_witness:
  "distinct (map fst (questions example_state))
   \<and> umap_find (questions example_state) 1 = Some question_1
   \<and> q_from_user_id question_1 = u_id user_B \<and> u_role user_B = REGULAR_USER
   \<and> umap_find (questions (snd (DeleteQuestion example_state 1 user_B))) 1 = None
   \<and> umap_find (questions (snd (DeleteQuestion example_state 1 user_B))) 2 = Some question_2
   \<and> umap_find (questions (snd (DeleteQuestion example_state 1 user_B))) 3 = None
   \<and> \<not> umap_count (questions example_state) 7
   \<and> DeleteQuestion example_state 7 user_B = (False, example_state)"
proof -
  have d: "distinct (map fst (questions example_state))"
    by (simp add: example_state_def)
  have P: "umap_find (questions example_state) 1 = Some question_1"
    by (simp add: example_state_def umap_find_def)
  have a: "q_from_user_id question_1 = u_id user_B" "u_role user_B = REGULAR_USER"
    by (simp_all add: question_1_def user_B_def)
  have n: "\<not> umap_count (questions example_state) 7"
    by (simp add: example_state_def umap_count_def)
  have look: "umap_find (questions (snd (DeleteQuestion example_state 1 user_B))) k =
      (case umap_find (questions example_state) k of
         None \<Rightarrow> None
       | Some q \<Rightarrow> if k = 1 \<or> (q_parent_id q = 1
                        \<and> (q_from_user_id q = u_id user_B \<or> u_role user_B = ADMIN))
                   then None else Some q)" for k
    using DeleteQuestion_cascade [OF d, of 1 user_B] P a by blast
  have "DeleteQuestion example_state 7 user_B = (False, example_state)"
    using DeleteQuestion_cascade [OF d, of 7 user_B] n by blast
  moreover have "umap_find (questions (snd (DeleteQuestion example_state 1 user_B))) 1 = None"
    by (subst look) (simp add: P)
  moreover have "umap_find (questions (snd (DeleteQuestion example_state 1 user_B))) 2 = Some question_2"
    by (subst look) (simp add: example_state_def umap_find_def question_2_def user_B_def)
  moreover have "umap_find (questions (snd (DeleteQuestion example_state 1 user_B))) 3 = None"
    by (subst look) (simp add: example_state_def umap_find_def question_3_def user_B_def)
  ultimately show ?thesis
    using d P a n by simp
qed

subsection \<open>Deleting an account\<close>

text \<open>
  Claim C9. \<^verbatim>\<open>DeleteUser\<close> leaves the thread collection as it was, whether the id
  exists or not and whoever wrote or received the entries; the questions file on disk
  keeps its content too, the two files having different paths.
\<close>

theorem DeleteUser_keeps_questions:
  "questions (snd (DeleteUser s user_id)) = questions s
   \<and> (users_file_path (file_manager s) \<noteq> questions_file_path (file_manager s) \<longrightarrow>
        files (disk (snd (DeleteUser s user_id))) (questions_file_path (file_manager s))
          = files (disk s) (questions_file_path (file_manager s)))"
  by (auto simp: DeleteUser_def SaveUsers_def StoreInformationOnFile_def Let_def
      split: prod.splits if_splits)

theorem DeleteUser_keeps_questions_witness:
  "users_file_path (file_manager example_state) \<noteq> questions_file_path (file_manager example_state)
   \<and> fst (DeleteUser example_state 2)
   \<and> umap_find (users (snd (DeleteUser example_state 2))) 2 = None
   \<and> questions (snd (DeleteUser example_state 2)) = [(1, question_1), (2, question_2), (3, question_3)]
   \<and> files (disk (snd (DeleteUser example_state 2))) ''questions.txt''
        = Some (map Question_toString [question_1, question_2, question_3])"
proof -
  have p: "users_file_path (file_manager example_state) \<noteq> questions_file_path (file_manager example_state)"
    by (simp add: example_state_def FileManager_default_def)
  have q: "questions_file_path (file_manager example_state) = ''questions.txt''"
    by (simp add: example_state_def FileManager_default_def)
  have e: "fst (DeleteUser example_state 2)" "umap_find (users (snd (DeleteUser example_state 2))) 2 = None"
    by (simp_all add: DeleteUser_def example_state_def umap_erase_def umap_count_def SaveUsers_def
         StoreInformationOnFile_def example_disk_def umap_find_def)
  from DeleteUser_keeps_questions [of example_state 2] p q e show ?thesis
    by (simp add: example_state_def example_disk_def)
qed

subsection \<open>Listing the replies to a question\<close>

lemma replies_listed:
  assumes d: "distinct (map fst qs)"
  shows "set (map snd (filter (\<lambda>pair. q_parent_id (snd pair) = p) qs))
           = {q. \<exists>k. map_of qs k = Some q \<and> q_parent_id q = p}"
proof -
  have "(\<exists>k. map_of qs k = Some q \<and> q_parent_id q = p)
      = (q \<in> snd ` {x \<in> set qs. q_parent_id (snd x) = p})" for q
    using d by (auto simp: image_iff)
  then show ?thesis by auto
qed

lemma reply_keys:
  assumes d: "distinct (map fst qs)"
  shows "set (map fst (filter (\<lambda>pair. q_parent_id (snd pair) = p) qs))
           = {k. \<exists>q. map_of qs k = Some q \<and> q_parent_id q = p}"
proof -
  have "(\<exists>q. map_of qs k = Some q \<and> q_parent_id q = p)
      = (k \<in> fst ` {x \<in> set qs. q_parent_id (snd x) = p})" for k
    using d by (auto simp: image_iff)
  then show ?thesis by auto
qed

lemma replies_count:
  assumes d: "distinct (map fst qs)"
  shows "length (filter (\<lambda>pair. q_parent_id (snd pair) = p) qs)
           = card {k. \<exists>q. map_of qs k = Some q \<and> q_parent_id q = p}"
proof -
  have "distinct (map fst (filter (\<lambda>pair. q_parent_id (snd pair) = p) qs))"
    using d by (simp add: distinct_map_filter)
  then have "card (set (map fst (filter (\<lambda>pair. q_parent_id (snd pair) = p) qs)))
      = length (map fst (filter (\<lambda>pair. q_parent_id (snd pair) = p) qs))"
    by (rule distinct_card)
  then show ?thesis
    by (simp only: reply_keys[OF d] length_map)
qed

text \<open>
  Claim C8 says that the listing of the replies to \<open>p\<close> never looks whether \<open>p\<close> itself
  exists. \<^verbatim>\<open>GetThreadQuestions\<close> does look: in the repository that holds only question
  2, a reply to the missing question 1, the listing for 1 is the error and not
  question 2.
\<close>

theorem GetThreadQuestions_checks_parent:
  "questions dangling_state = [(2, question_2)] \<and> q_parent_id question_2 = 1
   \<and> GetThreadQuestions dangling_state 1 = parent_does_not_exist"
  by (simp add: dangling_state_def GetThreadQuestions_def umap_count_def question_2_def)

text \<open>
  Claim C8 as amended. In a repository (keys pairwise distinct) and for an id \<open>p\<close> other
  than \<open>-1\<close>: when an entry with id \<open>p\<close> exists, the listing consists of exactly the
  entries whose parent id is \<open>p\<close>, each once; when no entry with id \<open>p\<close> exists, the
  listing is the error that the parent does not exist.
\<close>

theorem GetThreadQuestions_lists_replies:
  assumes "distinct (map fst (questions s))" and "parent_id \<noteq> - 1"
  shows "(umap_count (questions s) parent_id \<longrightarrow>
            (\<exists>listed. GetThreadQuestions s parent_id = threads listed
               \<and> set listed = {q. \<exists>k. umap_find (questions s) k = Some q \<and> q_parent_id q = parent_id}
               \<and> length listed = card {k. \<exists>q. umap_find (questions s) k = Some q \<and> q_parent_id q = parent_id}))
       \<and> (\<not> umap_count (questions s) parent_id \<longrightarrow>
            GetThreadQuestions s parent_id = parent_does_not_exist)"
  using assms replies_listed[OF assms(1), of parent_id] replies_count[OF assms(1), of parent_id]
  by (simp add: GetThreadQuestions_def umap_find_def)

theorem GetThreadQuestions_lists_replies_witness:
  "distinct (map fst (questions example_state)) \<and> (1::int) \<noteq> - 1
   \<and> umap_count (questions example_state) 1
   \<and> (\<exists>listed. GetThreadQuestions example_state 1 = threads listed
        \<and> set listed = {q. \<exists>k. umap_find (questions example_state) k = Some q \<and> q_parent_id q = 1})
   \<and> GetThreadQuestions example_state 1 = threads [question_2, question_3]
   \<and> distinct (map fst (questions dangling_state))
   \<and> \<not> umap_count (questions dangling_state) 7
   \<and> GetThreadQuestions dangling_state 7 = parent_does_not_exist"
proof -
  have d: "distinct (map fst (questions example_state))" "distinct (map fst (questions dangling_state))"
    by (simp_all add: example_state_def dangling_state_def)
  have n: "(1::int) \<noteq> - 1" "(7::int) \<noteq> - 1"
    by simp_all
  have c: "umap_count (questions example_state) 1" "\<not> umap_count (questions dangling_state) 7"
    by (simp_all add: example_state_def dangling_state_def umap_count_def)
  have "GetThreadQuestions dangling_state 7 = parent_does_not_exist"
    using GetThreadQuestions_lists_replies [OF d(2) n(2)] c(2) by blast
  moreover have "\<exists>listed. GetThreadQuestions example_state 1 = threads listed
        \<and> set listed = {q. \<exists>k. umap_find (questions example_state) k = Some q \<and> q_parent_id q = 1}"
    using GetThreadQuestions_lists_replies [OF d(1) n(1)] c(1) by blast
  moreover have "GetThreadQuestions example_state 1 = threads [question_2, question_3]"
    by (simp add: GetThreadQuestions_def example_state_def umap_count_def
        question_1_def question_2_def question_3_def)
  ultimately show ?thesis
    using d n c by simp
qed

subsection \<open>The parent of a new entry\<close>

lemma AddQuestion_questions:
  "questions (snd (AddQuestion s question)) = questions s
   \<or> questions (snd (AddQuestion s question)) = umap_assign (questions s) (q_id question) question"
  by (auto simp: AddQuestion_def Let_def split: sum.splits prod.splits)

lemma AddQuestion_parent_irrelevant:
  "fst (AddQuestion s (question\<lparr>q_parent_id := p\<rparr>)) = fst (AddQuestion s question)"
  by (auto simp: AddQuestion_def Let_def SaveQuestions_def StoreInformationOnFile_def
      split: sum.splits prod.splits)

lemma AskQuestion_new_entry:
  assumes new: "umap_find (questions (AskQuestion s current_user inp)) k = Some q"
    and old: "umap_find (questions s) k = None"
  shows "q_parent_id q = - 1 \<or> umap_count (questions s) (q_parent_id q)"
proof -
  from new old have ne: "questions (AskQuestion s current_user inp) \<noteq> questions s"
    by auto
  then obtain recipient where r: "GetUserByID (users s) (in_to_user_id inp) = Inr recipient"
    and t: "in_to_user_id inp \<noteq> - 1"
    by (auto simp: AskQuestion_def split: if_splits sum.splits)
  define parent_id where "parent_id =
    (if tolower (in_follow_up inp) = CHR ''y''
     then (case in_parent_id inp of None \<Rightarrow> - 1
           | Some p \<Rightarrow> if \<not> umap_count (questions s) p then - 1 else p)
     else - 1)"
  define question where "question = \<lparr>q_id = GetNextQuestionID (questions s), q_parent_id = parent_id,
     q_from_user_id = u_id current_user, q_to_user_id = in_to_user_id inp,
     q_is_anonymous = (if u_allow_anonymous_questions recipient
                      then tolower (in_anonymous inp) = CHR ''y'' else False),
     q_text = in_text inp, q_answer = []\<rparr>"
  have ask: "AskQuestion s current_user inp = snd (AddQuestion s question)"
    using r t by (simp add: AskQuestion_def question_def parent_id_def Let_def)
  have p: "parent_id = - 1 \<or> umap_count (questions s) parent_id"
    by (auto simp: parent_id_def split: option.splits)
  from ne ask AddQuestion_questions[of s question]
  have "questions (AskQuestion s current_user inp) = umap_assign (questions s) (q_id question) question"
    by auto
  with new old have "q = question"
    by (auto simp: umap_find_def map_of_assign split: if_splits)
  with p show ?thesis
    by (simp add: question_def)
qed

text \<open>
  Claim C3 says that \<^verbatim>\<open>AddQuestion\<close> succeeds for an entry with a parent id other than
  \<open>-1\<close> only if an entry with that id exists. \<^verbatim>\<open>AddQuestion\<close> has no such check: the
  reply to the missing question 42 is stored.
\<close>

theorem AddQuestion_accepts_missing_parent:
  "q_parent_id orphan_reply = 42 \<and> \<not> umap_count (questions example_state) 42
   \<and> fst (AddQuestion example_state orphan_reply)
   \<and> umap_find (questions (snd (AddQuestion example_state orphan_reply))) 4 = Some orphan_reply"
  by (simp add: orphan_reply_def example_state_def umap_count_def AddQuestion_def GetUserByID_def
      umap_find_def user_A_def SaveQuestions_def StoreInformationOnFile_def example_disk_def
      FileManager_default_def)

text \<open>
  Claim C3 as amended. The check is made by the dialogue \<^verbatim>\<open>AskQuestion\<close>: every entry
  that \<^verbatim>\<open>AskQuestion\<close> adds to the repository has the parent id \<open>-1\<close> or the id of an
  entry that is in the repository at that moment. \<^verbatim>\<open>AddQuestion\<close> itself does not look
  at the parent id: its result is the same whatever the parent id of the entry.
\<close>

theorem AskQuestion_parent_exists:
  "(umap_find (questions (AskQuestion s current_user inp)) k = Some q
      \<and> umap_find (questions s) k = None \<longrightarrow>
        q_parent_id q = - 1 \<or> umap_count (questions s) (q_parent_id q))
   \<and> fst (AddQuestion s (question\<lparr>q_parent_id := p\<rparr>)) = fst (AddQuestion s question)"
  using AskQuestion_new_entry [of s current_user inp k q] AddQuestion_parent_irrelevant
  by blast

theorem AskQuestion_parent_exists_witness:
  "umap_find (questions (AskQuestion example_state user_C ask_about_42)) 4
      = Some (orphan_reply\<lparr>q_parent_id := - 1\<rparr>)
   \<and> umap_find (questions example_state) 4 = None
   \<and> q_parent_id (orphan_reply\<lparr>q_parent_id := - 1\<rparr>) = - 1
   \<and> umap_find (questions (AskQuestion example_state user_C ask_about_1)) 4
      = Some (orphan_reply\<lparr>q_parent_id := 1\<rparr>)
   \<and> umap_count (questions example_state) (q_parent_id (orphan_reply\<lparr>q_parent_id := 1\<rparr>))"
proof -
  have next_id: "GetNextQuestionID [(1, question_1), (2, question_2), (3, question_3)] = 4"
    by (simp add: GetNextQuestionID_def max_element_def int_wrap_def)
  have yes: "tolower CHR ''y'' = CHR ''y''" "tolower CHR ''Y'' = CHR ''y''" "tolower CHR ''n'' = CHR ''n''"
    by code_simp+
  have a: "umap_find (questions (AskQuestion example_state user_C ask_about_42)) 4
      = Some (orphan_reply\<lparr>q_parent_id := - 1\<rparr>)"
    by (simp add: AskQuestion_def next_id ask_about_42_def GetUserByID_def yes Let_def
          example_state_def umap_find_def umap_count_def user_A_def user_C_def
          AddQuestion_def orphan_reply_def SaveQuestions_def
          StoreInformationOnFile_def example_disk_def)
  have b: "umap_find (questions (AskQuestion example_state user_C ask_about_1)) 4
      = Some (orphan_reply\<lparr>q_parent_id := 1\<rparr>)"
    by (simp add: AskQuestion_def next_id ask_about_1_def GetUserByID_def yes Let_def
          example_state_def umap_find_def umap_count_def user_A_def user_C_def
          AddQuestion_def orphan_reply_def SaveQuestions_def
          StoreInformationOnFile_def example_disk_def)
  have c: "umap_find (questions example_state) 4 = None"
    by (simp add: example_state_def umap_find_def)
  from a b c
    AskQuestion_parent_exists [of example_state user_C ask_about_42 4 "orphan_reply\<lparr>q_parent_id := - 1\<rparr>"]
    AskQuestion_parent_exists [of example_state user_C ask_about_1 4 "orphan_reply\<lparr>q_parent_id := 1\<rparr>"]
  show ?thesis
    by simp
qed

subsection \<open>The next id\<close>

lemma foldl_max_keys:
  "foldl (\<lambda>maxId pair. max maxId (fst pair)) a us = Max (set (a # map fst us))"
proof -
  have "foldl (\<lambda>maxId pair. max maxId (fst pair)) a us = fold max (map fst us) a"
    by (induction us arbitrary: a) (simp_all add: max.commute)
  then show ?thesis
    by (simp only: Max.set_eq_fold)
qed

lemma fst_foldl_largest:
  "fst (foldl (\<lambda>largest pair. if fst largest < fst pair then pair else largest) x m)
     = Max (set (fst x # map fst m))"
proof -
  have "fst (foldl (\<lambda>largest pair. if fst largest < fst pair then pair else largest) x m)
      = fold max (map fst m) (fst x)"
    by (induction m arbitrary: x) (auto simp: max_def)
  then show ?thesis
    by (simp only: Max.set_eq_fold)
qed

lemma int_wrap_in_range: "INT_MIN \<le> x \<Longrightarrow> x \<le> INT_MAX \<Longrightarrow> int_wrap x = x"
  by (simp add: int_wrap_def INT_MIN_def INT_MAX_def)

text \<open>
  With every key an \<^verbatim>\<open>int\<close> below \<^verbatim>\<open>INT_MAX\<close>, the next id of the thread repository is
  one more than the largest key, and the next id of the account repository is one more
  than the larger of 0 and the largest key. At the key \<^verbatim>\<open>INT_MAX\<close> the addition wraps.
\<close>

lemma GetNextQuestionID_Max:
  assumes "qs \<noteq> []" and "\<forall>k \<in> set (map fst qs). INT_MIN \<le> k \<and> k < INT_MAX"
  shows "GetNextQuestionID qs = Max (set (map fst qs)) + 1"
proof -
  from assms(1) obtain p m where qs: "qs = p # m"
    by (cases qs) auto
  have "Max (set (map fst qs)) \<in> set (map fst qs)"
    using assms(1) by (intro Max_in) simp_all
  with assms(2) have "INT_MIN \<le> Max (set (map fst qs)) + 1" "Max (set (map fst qs)) + 1 \<le> INT_MAX"
    by (auto simp: INT_MIN_def INT_MAX_def)
  then have "int_wrap (Max (set (map fst qs)) + 1) = Max (set (map fst qs)) + 1"
    by (rule int_wrap_in_range)
  moreover have "fst (max_element qs) = Max (set (map fst qs))"
    by (simp only: qs max_element_def fst_foldl_largest list.sel list.map)
  ultimately show ?thesis
    using assms(1) by (simp only: GetNextQuestionID_def if_False)
qed

lemma GetNextUserID_Max:
  assumes "us \<noteq> []" and "\<forall>k \<in> set (map fst us). INT_MIN \<le> k \<and> k < INT_MAX"
  shows "GetNextUserID us = max 0 (Max (set (map fst us))) + 1"
proof -
  have m: "Max (set (0 # map fst us)) = max 0 (Max (set (map fst us)))"
    using assms(1) by simp
  have "Max (set (map fst us)) \<in> set (map fst us)"
    using assms(1) by (intro Max_in) simp_all
  with assms(2) have "INT_MIN \<le> max 0 (Max (set (map fst us))) + 1"
      "max 0 (Max (set (map fst us))) + 1 \<le> INT_MAX"
    by (auto simp: INT_MIN_def INT_MAX_def)
  then have "int_wrap (max 0 (Max (set (map fst us))) + 1) = max 0 (Max (set (map fst us))) + 1"
    by (rule int_wrap_in_range)
  with assms(1) m show ?thesis
    by (simp only: GetNextUserID_def foldl_max_keys if_False)
qed

lemma next_id_overflow:
  "GetNextUserID [(INT_MAX, u)] = INT_MIN \<and> GetNextQuestionID [(INT_MAX, q)] = INT_MIN"
  by (simp add: GetNextUserID_def GetNextQuestionID_def max_element_def int_wrap_def
      INT_MAX_def INT_MIN_def)

text \<open>
  Claim C6. Each repository computes its next id from its own keys. The next id of an
  empty repository is 1. The next id of a repository that is not empty is the largest id
  plus one: for the thread repository whenever the ids are \<^verbatim>\<open>int\<close>s below \<^verbatim>\<open>INT_MAX\<close>,
  for the account repository whenever the ids are positive, as the ids of accounts are,
  and below \<^verbatim>\<open>INT_MAX\<close>. With the ids 3 and 7 the next id is 8, and after id 7 has been
  erased it is 4.
\<close>

theorem next_id_is_largest_plus_one:
  "GetNextUserID [] = 1 \<and> GetNextQuestionID [] = 1
   \<and> (us \<noteq> [] \<and> (\<forall>k \<in> set (map fst us). 0 < k \<and> k < INT_MAX) \<longrightarrow>
        GetNextUserID us = Max (set (map fst us)) + 1)
   \<and> (qs \<noteq> [] \<and> (\<forall>k \<in> set (map fst qs). INT_MIN \<le> k \<and> k < INT_MAX) \<longrightarrow>
        GetNextQuestionID qs = Max (set (map fst qs)) + 1)
   \<and> GetNextUserID [(3, u3), (7, u7)] = 8 \<and> GetNextQuestionID [(3, q3), (7, q7)] = 8
   \<and> GetNextUserID (snd (umap_erase [(3, u3), (7, u7)] 7)) = 4
   \<and> GetNextQuestionID (snd (umap_erase [(3, q3), (7, q7)] 7)) = 4"
proof (intro conjI impI)
  show "GetNextUserID [] = 1" "GetNextQuestionID [] = 1"
    by (simp_all add: GetNextUserID_def GetNextQuestionID_def)
next
  assume a: "us \<noteq> [] \<and> (\<forall>k \<in> set (map fst us). 0 < k \<and> k < INT_MAX)"
  then have "Max (set (map fst us)) \<in> set (map fst us)"
    by (intro Max_in) simp_all
  with a have "0 < Max (set (map fst us))"
    by blast
  then have m: "max 0 (Max (set (map fst us))) = Max (set (map fst us))"
    by (simp only: max_def) simp
  from a have "\<forall>k \<in> set (map fst us). INT_MIN \<le> k \<and> k < INT_MAX"
    by (auto simp: INT_MIN_def)
  with a have "GetNextUserID us = max 0 (Max (set (map fst us))) + 1"
    by (intro GetNextUserID_Max) simp_all
  then show "GetNextUserID us = Max (set (map fst us)) + 1"
    by (simp only: m)
next
  assume "qs \<noteq> [] \<and> (\<forall>k \<in> set (map fst qs). INT_MIN \<le> k \<and> k < INT_MAX)"
  then show "GetNextQuestionID qs = Max (set (map fst qs)) + 1"
    using GetNextQuestionID_Max [of qs] by blast
next
  show "GetNextUserID [(3, u3), (7, u7)] = 8" "GetNextQuestionID [(3, q3), (7, q7)] = 8"
    "GetNextUserID (snd (umap_erase [(3, u3), (7, u7)] 7)) = 4"
    "GetNextQuestionID (snd (umap_erase [(3, q3), (7, q7)] 7)) = 4"
    by (simp_all add: GetNextUserID_def GetNextQuestionID_def max_element_def umap_erase_def
        int_wrap_def)
qed

theorem next_id_is_largest_plus_one_witness:
  "map fst users_3_7 = [3, 7] \<and> (7::int) < INT_MAX
   \<and> Max (set (map fst users_3_7)) = 7 \<and> GetNextUserID users_3_7 = 8
   \<and> map fst questions_3_7 = [3, 7] \<and> INT_MIN \<le> (3::int)
   \<and> Max (set (map fst questions_3_7)) = 7 \<and> GetNextQuestionID questions_3_7 = 8
   \<and> GetNextUserID (snd (umap_erase users_3_7 7)) = 4
   \<and> GetNextQuestionID (snd (umap_erase questions_3_7 7)) = 4"
proof -
  have u: "users_3_7 \<noteq> [] \<and> (\<forall>k \<in> set (map fst users_3_7). 0 < k \<and> k < INT_MAX)"
    by (simp add: users_3_7_def INT_MAX_def)
  have q: "questions_3_7 \<noteq> [] \<and> (\<forall>k \<in> set (map fst questions_3_7). INT_MIN \<le> k \<and> k < INT_MAX)"
    by (simp add: questions_3_7_def INT_MIN_def INT_MAX_def)
  have m: "Max (set (map fst users_3_7)) = 7" "Max (set (map fst questions_3_7)) = 7"
    by (simp_all add: users_3_7_def questions_3_7_def)
  have "GetNextUserID users_3_7 = Max (set (map fst users_3_7)) + 1"
    using next_id_is_largest_plus_one [of users_3_7] u by blast
  moreover have "GetNextQuestionID questions_3_7 = Max (set (map fst questions_3_7)) + 1"
    using next_id_is_largest_plus_one [of _ questions_3_7] q by blast
  moreover have "GetNextUserID (snd (umap_erase users_3_7 7)) = 4"
    using next_id_is_largest_plus_one [of _ _ user_C "user_B\<lparr>u_id := 7\<rparr>"]
    by (simp add: users_3_7_def)
  moreover have "GetNextQuestionID (snd (umap_erase questions_3_7 7)) = 4"
    using next_id_is_largest_plus_one [of _ _ _ _ question_3 "question_1\<lparr>q_id := 7\<rparr>"]
    by (simp add: questions_3_7_def)
  ultimately show ?thesis
    using m by (simp add: users_3_7_def questions_3_7_def INT_MIN_def INT_MAX_def)
qed

subsection \<open>Numbers in text\<close>

lemma digit_char_props:
  assumes "d < 10"
  shows "isdigit (digit_char d)" and "digit_val (digit_char d) = d"
    and "digit_char d \<noteq> comma" and "digit_char d \<noteq> dquote" and "\<not> isspace (digit_char d)"
    and "digit_char d \<noteq> CHR ''-''" and "digit_char d \<noteq> CHR ''+''"
proof -
  have of: "of_char (digit_char d) = 48 + d"
    using assms by (simp add: digit_char_def)
  show "isdigit (digit_char d)" "digit_val (digit_char d) = d"
    using assms by (simp_all add: isdigit_def digit_val_def of)
  have ne: "digit_char d \<noteq> c" if "(of_char c :: nat) < 48" for c
    using that of by auto
  show "digit_char d \<noteq> comma" "digit_char d \<noteq> dquote" "digit_char d \<noteq> CHR ''-''" "digit_char d \<noteq> CHR ''+''"
    by (rule ne, simp add: comma_def dquote_def)+
  show "\<not> isspace (digit_char d)"
    using ne[of "CHR '' ''"] by (auto simp: isspace_def of)
qed

lemma digits_not_empty: "digits n \<noteq> []"
  by (subst digits.simps) simp

lemma digits_chars: "c \<in> set (digits n) \<Longrightarrow> \<exists>d < 10. c = digit_char d"
proof (induction n rule: digits.induct)
  case (1 n)
  show ?case
  proof (cases "n < 10")
    case True
    with "1.prems" show ?thesis by (subst (asm) digits.simps) auto
  next
    case False
    with "1.prems" have "c \<in> set (digits (n div 10)) \<or> c = digit_char (n mod 10)"
      by (subst (asm) digits.simps) auto
    with False "1.IH" show ?thesis
      by (metis mod_less_divisor zero_less_numeral)
  qed
qed

lemma digits_value_snoc: "digits_value acc (cs @ [c]) = 10 * digits_value acc cs + digit_val c"
  by (induction cs arbitrary: acc) simp_all

lemma digits_value_digits: "digits_value 0 (digits n) = n"
proof (induction n rule: digits.induct)
  case (1 n)
  show ?case
  proof (cases "n < 10")
    case True
    then show ?thesis by (subst digits.simps) (simp add: digit_char_props)
  next
    case False
    with "1.IH" show ?thesis
      by (subst digits.simps) (simp add: digits_value_snoc digit_char_props)
  qed
qed

lemma takeWhile_isdigit_digits: "takeWhile isdigit (digits n) = digits n"
proof -
  have "\<forall>c \<in> set (digits n). isdigit c"
    using digits_chars digit_char_props(1) by blast
  then show ?thesis by simp
qed

lemma digits_head: "\<exists>k cs. k < 10 \<and> digits n = digit_char k # cs"
proof (cases "digits n")
  case Nil
  then show ?thesis by (simp add: digits_not_empty)
next
  case (Cons c cs)
  then have "c \<in> set (digits n)" by simp
  with Cons show ?thesis using digits_chars by blast
qed

lemma stoi_to_string:
  assumes "INT_MIN \<le> i" and "i \<le> INT_MAX"
  shows "stoi (to_string i) = Inr i"
proof -
  obtain k cs where k: "k < 10" and d: "digits (nat \<bar>i\<bar>) = digit_char k # cs"
    using digits_head by blast
  have tw: "takeWhile isdigit (digit_char k # cs) = digit_char k # cs"
    using takeWhile_isdigit_digits[of "nat \<bar>i\<bar>"] by (simp only: d)
  have v: "digits_value 0 (digit_char k # cs) = nat \<bar>i\<bar>"
    using digits_value_digits[of "nat \<bar>i\<bar>"] by (simp only: d)
  show ?thesis
  proof (cases "i < 0")
    case True
    then have "to_string i = CHR ''-'' # digit_char k # cs"
      using d by (simp add: to_string_def abs_if)
    then show ?thesis
      using True assms
      by (simp add: stoi_def isspace_def Let_def tw v del: digits_value.simps takeWhile.simps)
  next
    case False
    then have "to_string i = digit_char k # cs"
      using d by (simp add: to_string_def abs_if)
    then show ?thesis
      using False assms digit_char_props(5,6,7)[OF k]
      by (simp add: stoi_def Let_def tw v del: digits_value.simps takeWhile.simps)
  qed
qed

lemma to_string_chars: "c \<in> set (to_string i) \<Longrightarrow> c \<noteq> comma \<and> c \<noteq> dquote"
  using digits_chars digit_char_props(3,4)
  by (fastforce simp: to_string_def comma_def dquote_def split: if_splits)

subsection \<open>Encoding and decoding a line\<close>

lemma split_loop_plain:
  "comma \<notin> set f \<Longrightarrow> dquote \<notin> set f \<Longrightarrow>
   split_loop (f @ rest) comma tokens cur False = split_loop rest comma tokens (cur @ f) False"
  by (induction f arbitrary: cur) auto

lemma split_loop_quoted:
  "dquote \<notin> set f \<Longrightarrow>
   split_loop (f @ rest) comma tokens cur True = split_loop rest comma tokens (cur @ f) True"
  by (induction f arbitrary: cur) auto

lemma comma_not_dquote: "comma \<noteq> dquote"
  by (simp add: comma_def dquote_def)

lemma split_loop_field:
  "comma \<notin> set f \<Longrightarrow> dquote \<notin> set f \<Longrightarrow>
   split_loop (f @ comma # rest) comma tokens [] False = split_loop rest comma (tokens @ [f]) [] False"
  by (simp add: split_loop_plain comma_not_dquote)

lemma split_loop_last_field:
  "comma \<notin> set f \<Longrightarrow> dquote \<notin> set f \<Longrightarrow> split_loop f comma tokens [] False = tokens @ [f]"
  using split_loop_plain[of f "[]" tokens "[]"] by simp

lemma double_quotes_none: "dquote \<notin> set str \<Longrightarrow> double_quotes str = str"
  by (induction str) auto

lemma split_loop_escaped:
  assumes "dquote \<notin> set str"
  shows "split_loop (escapeCommas str @ comma # rest) comma tokens [] False
           = split_loop rest comma (tokens @ [str]) [] False"
proof (cases "comma \<in> set str")
  case True
  then have "escapeCommas str @ comma # rest = dquote # (str @ dquote # comma # rest)"
    using assms by (simp add: escapeCommas_def double_quotes_none)
  then show ?thesis
    using assms by (simp add: split_loop_quoted comma_not_dquote)
next
  case False
  then show ?thesis
    using assms by (simp add: escapeCommas_def split_loop_field)
qed

lemma split_loop_last_escaped:
  assumes "dquote \<notin> set str"
  shows "split_loop (escapeCommas str) comma tokens [] False = tokens @ [str]"
proof (cases "comma \<in> set str")
  case True
  then have "escapeCommas str = dquote # (str @ dquote # [])"
    using assms by (simp add: escapeCommas_def double_quotes_none)
  then show ?thesis
    using assms by (simp add: split_loop_quoted)
next
  case False
  then show ?thesis
    using assms by (simp add: escapeCommas_def split_loop_last_field)
qed

lemma to_string_plain: "comma \<notin> set (to_string i)" "dquote \<notin> set (to_string i)"
  using to_string_chars by blast+

lemma flag_string_plain: "comma \<notin> set (flag_string b)" "dquote \<notin> set (flag_string b)"
  by (simp_all add: flag_string_def comma_def dquote_def)

lemma flag_string_read: "(flag_string b = ''1'' \<or> flag_string b = ''true'') = b"
  by (simp add: flag_string_def)

lemma split_Question_toString:
  assumes "dquote \<notin> set (q_text q)" and "dquote \<notin> set (q_answer q)"
  shows "split (Question_toString q) comma =
     [to_string (q_id q), to_string (q_parent_id q), to_string (q_from_user_id q),
      to_string (q_to_user_id q), flag_string (q_is_anonymous q), q_text q, q_answer q]"
  using assms
  by (simp add: split_def Question_toString_def split_loop_field split_loop_escaped
      split_loop_last_escaped to_string_plain flag_string_plain comma_def[symmetric])

text \<open>
  Decoding the encoded line gives the record back for a question whose text and answer
  hold no double quote, and for an account whose text fields hold neither a comma nor a
  double quote; the numbers are those of an \<^verbatim>\<open>int\<close>.
\<close>

lemma question_round_trip:
  assumes "dquote \<notin> set (q_text q)" and "dquote \<notin> set (q_answer q)"
    and "int_range (q_id q)" and "int_range (q_parent_id q)"
    and "int_range (q_from_user_id q)" and "int_range (q_to_user_id q)"
  shows "Question_of_line (Question_toString q) = Inr q"
  using assms(3-6)
  by (simp add: Question_of_line_def split_Question_toString[OF assms(1,2)] stoi_to_string
      int_range_def flag_string_read)

lemma split_User_toString:
  assumes "\<forall>f \<in> {u_name u, u_password u, u_username u, u_email u}. comma \<notin> set f \<and> dquote \<notin> set f"
  shows "split (User_toString u) comma =
     [to_string (u_id u), u_name u, u_password u, u_username u, u_email u,
      flag_string (u_allow_anonymous_questions u), to_string (Role_value (u_role u))]"
  using assms
  by (simp add: split_def User_toString_def split_loop_field split_loop_last_field
      to_string_plain flag_string_plain comma_def[symmetric])

lemma Role_read: "(to_string (Role_value r) = ''0'') = (r = ADMIN)"
proof -
  have "to_string 0 = ''0''" "to_string 1 = ''1''"
    by code_simp+
  then show ?thesis
    by (cases r) simp_all
qed

lemma user_round_trip:
  assumes "\<forall>f \<in> {u_name u, u_password u, u_username u, u_email u}. comma \<notin> set f \<and> dquote \<notin> set f"
    and "int_range (u_id u)"
  shows "User_of_line (User_toString u) = Inr u"
proof -
  have "(if u_role u = ADMIN then ADMIN else REGULAR_USER) = u_role u"
    by (cases "u_role u") simp_all
  then show ?thesis
    using assms(2)
    by (simp add: User_of_line_def split_User_toString[OF assms(1)] stoi_to_string
        int_range_def flag_string_read Role_read)
qed

lemma escapeCommas_with_comma:
  "comma \<in> set str \<Longrightarrow> escapeCommas str = dquote # double_quotes str @ [dquote]"
  by (simp add: escapeCommas_def)

lemma escapeCommas_without_comma:
  "comma \<notin> set str \<Longrightarrow> escapeCommas str = str"
  by (simp add: escapeCommas_def)

text \<open>
  Claim C1 says that decoding the encoded line gives the record back, also when a text
  field holds commas or double quotes. The question whose text is \<open>say "hi"\<close> and whose
  answer is \<open>yes, "hi"\<close> comes back without any of its double quotes, and the account
  named \<open>Doe, John\<close> comes back with its fields shifted.
\<close>

theorem quotes_lost_in_round_trip:
  \<open>Question_of_line (Question_toString quoting_question)
     = Inr (quoting_question\<lparr>q_text := ''say hi'', q_answer := ''yes, hi''\<rparr>)
   \<and> User_of_line (User_toString comma_user)
     = Inr \<lparr>u_id = 4, u_name = ''Doe'', u_password = '' John'', u_username = ''pw'',
            u_email = ''jd'', u_allow_anonymous_questions = False, u_role = REGULAR_USER\<rparr>\<close>
  by code_simp

text \<open>
  Claim C5 says that a field of either entity type is written in double quotes exactly
  when it holds a comma. \<^verbatim>\<open>User::toString\<close> writes the name \<open>Doe, John\<close> as it is.
\<close>

theorem User_toString_never_quotes:
  "u_name comma_user = ''Doe, John'' \<and> comma \<in> set (u_name comma_user)
   \<and> User_toString comma_user = ''4,Doe, John,pw,jd,jd@test.com,1,0''"
  by code_simp

subsection \<open>Loading a file\<close>

lemma map_of_emplace_all:
  "map_of (emplace_all kvs m) k = (case map_of m k of Some v \<Rightarrow> Some v | None \<Rightarrow> map_of kvs k)"
  by (induction kvs arbitrary: m) (auto simp: map_of_emplace split: option.splits)

lemma distinct_emplace_all:
  "distinct (map fst m) \<Longrightarrow> distinct (map fst (emplace_all kvs m))"
  by (induction kvs arbitrary: m) (simp_all add: distinct_emplace)

lemma keys_emplace: "set (map fst (snd (umap_emplace m k v))) = insert k (set (map fst m))"
  by (auto simp: umap_emplace_def umap_count_def)

lemma keys_emplace_all:
  "set (map fst (emplace_all kvs m)) = set (map fst m) \<union> set (map fst kvs)"
  by (induction kvs arbitrary: m) (auto simp: keys_emplace[simplified])

lemma set_emplace_all:
  "set (emplace_all kvs m) \<subseteq> set m \<union> set kvs"
proof (induction kvs arbitrary: m)
  case Nil
  then show ?case by simp
next
  case (Cons kv kvs)
  have "set (snd (umap_emplace m (fst kv) (snd kv))) \<subseteq> insert kv (set m)"
    by (auto simp: umap_emplace_def)
  with Cons[of "snd (umap_emplace m (fst kv) (snd kv))"] show ?case
    by auto
qed

lemma emplace_all_distinct:
  "distinct (map fst (m @ kvs)) \<Longrightarrow> emplace_all kvs m = m @ kvs"
proof (induction kvs arbitrary: m)
  case Nil
  then show ?case by simp
next
  case (Cons kv kvs)
  then have "snd (umap_emplace m (fst kv) (snd kv)) = m @ [kv]"
    by (auto simp: umap_emplace_def umap_count_def)
  moreover have "emplace_all kvs (m @ [kv]) = (m @ [kv]) @ kvs"
    using Cons.prems by (intro Cons.IH) auto
  ultimately show ?case by simp
qed

lemma length_emplace_all:
  "length (emplace_all kvs []) = card (set (map fst kvs))"
proof -
  have "distinct (map fst (emplace_all kvs []))"
    by (simp add: distinct_emplace_all)
  then have "card (set (map fst (emplace_all kvs []))) = length (map fst (emplace_all kvs []))"
    by (rule distinct_card)
  then show ?thesis
    by (simp only: keys_emplace_all length_map) simp
qed

lemma LoadUsers_loop_emplace_all:
  "LoadUsers_loop lines acc = emplace_all (map (\<lambda>u. (u_id u, u)) (users_in_lines lines)) acc"
  by (induction lines arbitrary: acc) (simp_all add: users_in_lines_def split: sum.splits)

lemma LoadQuestions_loop_emplace_all:
  "LoadQuestions_loop lines acc = emplace_all (map (\<lambda>q. (q_id q, q)) (questions_in_lines lines)) acc"
  by (induction lines arbitrary: acc) (simp_all add: questions_in_lines_def split: sum.splits)

lemma User_of_empty_line: "User_of_line [] = Inl not_enough_tokens"
  by (simp add: User_of_line_def split_def)

lemma Question_of_empty_line: "Question_of_line [] = Inl not_enough_tokens"
  by (simp add: Question_of_line_def split_def)

lemma users_in_nonempty_lines: "users_in_lines (filter (\<lambda>line. line \<noteq> []) lines) = users_in_lines lines"
  by (induction lines) (simp_all add: users_in_lines_def User_of_empty_line)

lemma questions_in_nonempty_lines:
  "questions_in_lines (filter (\<lambda>line. line \<noteq> []) lines) = questions_in_lines lines"
  by (induction lines) (simp_all add: questions_in_lines_def Question_of_empty_line)

lemma LoadUsers_emplace_all:
  "files d (users_file_path fm) = Some lines \<Longrightarrow>
   LoadUsers fm d = emplace_all (map (\<lambda>u. (u_id u, u)) (users_in_lines lines)) []"
  by (simp add: LoadUsers_def ReadInformationFromFile_def LoadUsers_loop_emplace_all users_in_nonempty_lines)

lemma LoadQuestions_emplace_all:
  "files d (questions_file_path fm) = Some lines \<Longrightarrow>
   LoadQuestions fm d = emplace_all (map (\<lambda>q. (q_id q, q)) (questions_in_lines lines)) []"
  by (simp add: LoadQuestions_def ReadInformationFromFile_def LoadQuestions_loop_emplace_all
      questions_in_nonempty_lines)

lemma users_in_lines_iff: "u \<in> set (users_in_lines lines) \<longleftrightarrow> (\<exists>l \<in> set lines. User_of_line l = Inr u)"
  by (force simp: users_in_lines_def split: sum.splits)

lemma questions_in_lines_iff:
  "q \<in> set (questions_in_lines lines) \<longleftrightarrow> (\<exists>l \<in> set lines. Question_of_line l = Inr q)"
  by (force simp: questions_in_lines_def split: sum.splits)

lemma user_line_well_formed_iff: "user_line_well_formed line \<longleftrightarrow> (\<exists>u. User_of_line line = Inr u)"
  by (auto simp: user_line_well_formed_def converts_def User_of_line_def Let_def split: sum.splits)

lemma question_line_well_formed_iff:
  "question_line_well_formed line \<longleftrightarrow> (\<exists>q. Question_of_line line = Inr q)"
  by (auto simp: question_line_well_formed_def converts_def Question_of_line_def Let_def
      split: sum.splits)

lemma length_users_in_lines: "length (users_in_lines lines) = length (filter user_line_well_formed lines)"
  by (induction lines) (auto simp: users_in_lines_def user_line_well_formed_iff split: sum.splits)

lemma length_questions_in_lines:
  "length (questions_in_lines lines) = length (filter question_line_well_formed lines)"
  by (induction lines) (auto simp: questions_in_lines_def question_line_well_formed_iff split: sum.splits)

lemma map_of_first_key:
  assumes "\<forall>x \<in> set xs. f x \<noteq> f y"
  shows "map_of (map (\<lambda>x. (f x, x)) (xs @ y # ys)) (f y) = Some y"
  using assms by (induction xs) auto

lemma users_in_lines_append: "users_in_lines (xs @ ys) = users_in_lines xs @ users_in_lines ys"
  by (simp add: users_in_lines_def)

lemma questions_in_lines_append:
  "questions_in_lines (xs @ ys) = questions_in_lines xs @ questions_in_lines ys"
  by (simp add: questions_in_lines_def)

lemma first_user_line_wins:
  assumes f: "files d (users_file_path fm) = Some (before @ line # after)"
    and l: "User_of_line line = Inr u"
    and b: "\<forall>l \<in> set before. \<forall>u'. User_of_line l = Inr u' \<longrightarrow> u_id u' \<noteq> u_id u"
  shows "umap_find (LoadUsers fm d) (u_id u) = Some u"
proof -
  have decoded: "users_in_lines (before @ line # after) = users_in_lines before @ u # users_in_lines after"
    using l by (simp add: users_in_lines_def)
  have "\<forall>x \<in> set (users_in_lines before). u_id x \<noteq> u_id u"
    using b by (auto simp: users_in_lines_iff)
  then have "map_of (map (\<lambda>u. (u_id u, u)) (users_in_lines before @ u # users_in_lines after)) (u_id u) = Some u"
    by (rule map_of_first_key)
  then show ?thesis
    by (simp only: umap_find_def LoadUsers_emplace_all[OF f] map_of_emplace_all decoded) simp
qed

lemma first_question_line_wins:
  assumes f: "files d (questions_file_path fm) = Some (before @ line # after)"
    and l: "Question_of_line line = Inr q"
    and b: "\<forall>l \<in> set before. \<forall>q'. Question_of_line l = Inr q' \<longrightarrow> q_id q' \<noteq> q_id q"
  shows "umap_find (LoadQuestions fm d) (q_id q) = Some q"
proof -
  have decoded: "questions_in_lines (before @ line # after)
      = questions_in_lines before @ q # questions_in_lines after"
    using l by (simp add: questions_in_lines_def)
  have "\<forall>x \<in> set (questions_in_lines before). q_id x \<noteq> q_id q"
    using b by (auto simp: questions_in_lines_iff)
  then have "map_of (map (\<lambda>q. (q_id q, q)) (questions_in_lines before @ q # questions_in_lines after)) (q_id q) = Some q"
    by (rule map_of_first_key)
  then show ?thesis
    by (simp only: umap_find_def LoadQuestions_emplace_all[OF f] map_of_emplace_all decoded) simp
qed

lemma distinct_LoadUsers: "distinct (map fst (LoadUsers fm d))"
  by (simp add: LoadUsers_def LoadUsers_loop_emplace_all distinct_emplace_all)

lemma distinct_LoadQuestions: "distinct (map fst (LoadQuestions fm d))"
  by (simp add: LoadQuestions_def LoadQuestions_loop_emplace_all distinct_emplace_all)

lemma loaded_users:
  assumes f: "files d (users_file_path fm) = Some ulines"
  shows "length (LoadUsers fm d) = card (u_id ` set (users_in_lines ulines))"
    and "\<forall>(k, u) \<in> set (LoadUsers fm d). k = u_id u \<and> u \<in> set (users_in_lines ulines)"
    and "length (users_in_lines ulines) = length (filter user_line_well_formed ulines)"
    and "distinct (map u_id (users_in_lines ulines)) \<longrightarrow>
           map snd (LoadUsers fm d) = users_in_lines ulines
           \<and> length (LoadUsers fm d) = length (filter user_line_well_formed ulines)"
proof -
  let ?kvs = "map (\<lambda>u. (u_id u, u)) (users_in_lines ulines)"
  have load: "LoadUsers fm d = emplace_all ?kvs []"
    using f by (rule LoadUsers_emplace_all)
  show "length (LoadUsers fm d) = card (u_id ` set (users_in_lines ulines))"
    by (simp add: load length_emplace_all image_image)
  show "\<forall>(k, u) \<in> set (LoadUsers fm d). k = u_id u \<and> u \<in> set (users_in_lines ulines)"
    using set_emplace_all[of ?kvs "[]"] by (auto simp: load)
  show len: "length (users_in_lines ulines) = length (filter user_line_well_formed ulines)"
    by (rule length_users_in_lines)
  show "distinct (map u_id (users_in_lines ulines)) \<longrightarrow>
           map snd (LoadUsers fm d) = users_in_lines ulines
           \<and> length (LoadUsers fm d) = length (filter user_line_well_formed ulines)"
  proof
    assume "distinct (map u_id (users_in_lines ulines))"
    then have "distinct (map fst ([] @ ?kvs))"
      by (simp add: comp_def)
    then have "emplace_all ?kvs [] = [] @ ?kvs"
      by (rule emplace_all_distinct)
    then have "map snd (LoadUsers fm d) = users_in_lines ulines"
      by (simp add: load comp_def)
    moreover from this have "length (LoadUsers fm d) = length (users_in_lines ulines)"
      by (metis length_map)
    ultimately show "map snd (LoadUsers fm d) = users_in_lines ulines
           \<and> length (LoadUsers fm d) = length (filter user_line_well_formed ulines)"
      using len by simp
  qed
qed

lemma loaded_questions:
  assumes f: "files d (questions_file_path fm) = Some qlines"
  shows "length (LoadQuestions fm d) = card (q_id ` set (questions_in_lines qlines))"
    and "\<forall>(k, q) \<in> set (LoadQuestions fm d). k = q_id q \<and> q \<in> set (questions_in_lines qlines)"
    and "length (questions_in_lines qlines) = length (filter question_line_well_formed qlines)"
    and "distinct (map q_id (questions_in_lines qlines)) \<longrightarrow>
           map snd (LoadQuestions fm d) = questions_in_lines qlines
           \<and> length (LoadQuestions fm d) = length (filter question_line_well_formed qlines)"
proof -
  let ?kvs = "map (\<lambda>q. (q_id q, q)) (questions_in_lines qlines)"
  have load: "LoadQuestions fm d = emplace_all ?kvs []"
    using f by (rule LoadQuestions_emplace_all)
  show "length (LoadQuestions fm d) = card (q_id ` set (questions_in_lines qlines))"
    by (simp add: load length_emplace_all image_image)
  show "\<forall>(k, q) \<in> set (LoadQuestions fm d). k = q_id q \<and> q \<in> set (questions_in_lines qlines)"
    using set_emplace_all[of ?kvs "[]"] by (auto simp: load)
  show len: "length (questions_in_lines qlines) = length (filter question_line_well_formed qlines)"
    by (rule length_questions_in_lines)
  show "distinct (map q_id (questions_in_lines qlines)) \<longrightarrow>
           map snd (LoadQuestions fm d) = questions_in_lines qlines
           \<and> length (LoadQuestions fm d) = length (filter question_line_well_formed qlines)"
  proof
    assume "distinct (map q_id (questions_in_lines qlines))"
    then have "distinct (map fst ([] @ ?kvs))"
      by (simp add: comp_def)
    then have "emplace_all ?kvs [] = [] @ ?kvs"
      by (rule emplace_all_distinct)
    then have "map snd (LoadQuestions fm d) = questions_in_lines qlines"
      by (simp add: load comp_def)
    moreover from this have "length (LoadQuestions fm d) = length (questions_in_lines qlines)"
      by (metis length_map)
    ultimately show "map snd (LoadQuestions fm d) = questions_in_lines qlines
           \<and> length (LoadQuestions fm d) = length (filter question_line_well_formed qlines)"
      using len by simp
  qed
qed

text \<open>
  Claim C10. When a file holds several well-formed lines with the same id, the loaded
  collection holds, under that id, the record of the first of them: a well-formed line
  is loaded whenever no well-formed line before it has its id, whatever comes after it.
  The keys of a loaded collection are pairwise distinct. This holds for accounts and
  for questions.
\<close>

theorem load_keeps_first_line:
  "(files d (users_file_path fm) = Some (before @ line # after) \<and> User_of_line line = Inr u
      \<and> (\<forall>l \<in> set before. \<forall>u'. User_of_line l = Inr u' \<longrightarrow> u_id u' \<noteq> u_id u)
     \<longrightarrow> umap_find (LoadUsers fm d) (u_id u) = Some u)
   \<and> (files d (questions_file_path fm) = Some (qbefore @ qline # qafter)
      \<and> Question_of_line qline = Inr q
      \<and> (\<forall>l \<in> set qbefore. \<forall>q'. Question_of_line l = Inr q' \<longrightarrow> q_id q' \<noteq> q_id q)
     \<longrightarrow> umap_find (LoadQuestions fm d) (q_id q) = Some q)
   \<and> distinct (map fst (LoadUsers fm d)) \<and> distinct (map fst (LoadQuestions fm d))"
  using first_user_line_wins [of d fm before line after u]
    first_question_line_wins [of d fm qbefore qline qafter q]
    distinct_LoadUsers [of fm d] distinct_LoadQuestions [of fm d]
  by blast

theorem load_keeps_first_line_witness:
  "files repeated_disk (users_file_path FileManager_default)
     = Some ([] @ ''1,Admin User,admin123,admin,admin@test.com,1,0''
          # [''1,Impostor,secret,imp,imp@test.com,0,1'',
             ''3,No Anon User,pass123,user2,user2@test.com,0,1''])
   \<and> User_of_line ''1,Admin User,admin123,admin,admin@test.com,1,0'' = Inr admin_user
   \<and> User_of_line ''1,Impostor,secret,imp,imp@test.com,0,1''
       = Inr \<lparr>u_id = 1, u_name = ''Impostor'', u_password = ''secret'', u_username = ''imp'',
           u_email = ''imp@test.com'', u_allow_anonymous_questions = False, u_role = REGULAR_USER\<rparr>
   \<and> User_of_line ''3,No Anon User,pass123,user2,user2@test.com,0,1'' = Inr no_anon_user
   \<and> umap_find (LoadUsers FileManager_default repeated_disk) 1 = Some admin_user
   \<and> umap_find (LoadUsers FileManager_default repeated_disk) 3 = Some no_anon_user
   \<and> files repeated_disk (questions_file_path FileManager_default)
     = Some ([] @ ''1,-1,2,1,0,What is your favorite color?,Blue is my favorite''
          # [''3,1,1,2,0,Follow up question,This is a follow up'',
             ''1,-1,3,1,1,How are you today?,''])
   \<and> Question_of_line ''1,-1,2,1,0,What is your favorite color?,Blue is my favorite''
       = Inr color_question
   \<and> umap_find (LoadQuestions FileManager_default repeated_disk) 1 = Some color_question
   \<and> map fst (LoadUsers FileManager_default repeated_disk) = [1, 3]
   \<and> map fst (LoadQuestions FileManager_default repeated_disk) = [1, 3]"
proof -
  have fu: "files repeated_disk (users_file_path FileManager_default)
     = Some ([] @ ''1,Admin User,admin123,admin,admin@test.com,1,0''
          # [''1,Impostor,secret,imp,imp@test.com,0,1'',
             ''3,No Anon User,pass123,user2,user2@test.com,0,1''])"
    by (simp add: repeated_disk_def FileManager_default_def repeated_users_file_def)
  have fu3: "files repeated_disk (users_file_path FileManager_default)
     = Some ([''1,Admin User,admin123,admin,admin@test.com,1,0'',
              ''1,Impostor,secret,imp,imp@test.com,0,1'']
          @ ''3,No Anon User,pass123,user2,user2@test.com,0,1'' # [])"
    by (simp add: repeated_disk_def FileManager_default_def repeated_users_file_def)
  have fq: "files repeated_disk (questions_file_path FileManager_default)
     = Some ([] @ ''1,-1,2,1,0,What is your favorite color?,Blue is my favorite''
          # [''3,1,1,2,0,Follow up question,This is a follow up'',
             ''1,-1,3,1,1,How are you today?,''])"
    by (simp add: repeated_disk_def FileManager_default_def repeated_questions_file_def)
  have lu: "User_of_line ''1,Admin User,admin123,admin,admin@test.com,1,0'' = Inr admin_user"
    by code_simp
  have lu2: "User_of_line ''1,Impostor,secret,imp,imp@test.com,0,1''
       = Inr \<lparr>u_id = 1, u_name = ''Impostor'', u_password = ''secret'', u_username = ''imp'',
           u_email = ''imp@test.com'', u_allow_anonymous_questions = False, u_role = REGULAR_USER\<rparr>"
    by code_simp
  have lu3: "User_of_line ''3,No Anon User,pass123,user2,user2@test.com,0,1'' = Inr no_anon_user"
    by code_simp
  have lq: "Question_of_line ''1,-1,2,1,0,What is your favorite color?,Blue is my favorite''
       = Inr color_question"
    by code_simp
  have iu: "u_id admin_user = 1" and iu3: "u_id no_anon_user = 3" and iq: "q_id color_question = 1"
    by (simp_all add: admin_user_def no_anon_user_def color_question_def)
  have keys: "map fst (LoadUsers FileManager_default repeated_disk) = [1, 3]"
    "map fst (LoadQuestions FileManager_default repeated_disk) = [1, 3]"
    by code_simp+
  have "umap_find (LoadUsers FileManager_default repeated_disk) 1 = Some admin_user"
    using load_keeps_first_line [of repeated_disk FileManager_default "[]" _ _ admin_user] fu lu iu
    by simp
  moreover have "umap_find (LoadUsers FileManager_default repeated_disk) 3 = Some no_anon_user"
    using load_keeps_first_line [of repeated_disk FileManager_default
        "[''1,Admin User,admin123,admin,admin@test.com,1,0'', ''1,Impostor,secret,imp,imp@test.com,0,1'']"
        _ "[]" no_anon_user]
      fu3 lu lu2 lu3 iu iu3
    by auto
  moreover have "umap_find (LoadQuestions FileManager_default repeated_disk) 1 = Some color_question"
    using load_keeps_first_line [of repeated_disk FileManager_default _ _ _ _ "[]" _ _ color_question] fq lq iq
    by simp
  ultimately show ?thesis
    using fu fq lu lu2 lu3 lq keys by simp
qed

text \<open>
  Claim C7 says that the loaded count is the number of well-formed lines. In the files in
  which id 1 occurs on two of the three well-formed lines, two records are loaded.
\<close>

theorem repeated_id_is_loaded_once:
  "length (filter user_line_well_formed repeated_users_file) = 3
   \<and> length (LoadUsers FileManager_default repeated_disk) = 2
   \<and> length (filter question_line_well_formed repeated_questions_file) = 3
   \<and> length (LoadQuestions FileManager_default repeated_disk) = 2"
  by code_simp

text \<open>
  Claim C7 as amended. Loading skips every line with fewer fields than required and
  every line on which a conversion of a number throws, and goes on with the remaining
  lines: every loaded record is the record of a well-formed line, stored under its id;
  the number of loaded records is the number of different ids on the well-formed lines;
  and when the well-formed lines have pairwise different ids, the loaded records are
  exactly their records, one for each well-formed line, so that the loaded count is the
  number of well-formed lines. This holds for accounts and for questions.
\<close>

theorem load_skips_malformed_lines:
  assumes "files d (users_file_path fm) = Some ulines"
    and "files d (questions_file_path fm) = Some qlines"
  shows "length (LoadUsers fm d) = card (u_id ` set (users_in_lines ulines))
       \<and> (\<forall>(k, u) \<in> set (LoadUsers fm d). k = u_id u \<and> u \<in> set (users_in_lines ulines))
       \<and> length (users_in_lines ulines) = length (filter user_line_well_formed ulines)
       \<and> (distinct (map u_id (users_in_lines ulines)) \<longrightarrow>
            map snd (LoadUsers fm d) = users_in_lines ulines
            \<and> length (LoadUsers fm d) = length (filter user_line_well_formed ulines))
       \<and> length (LoadQuestions fm d) = card (q_id ` set (questions_in_lines qlines))
       \<and> (\<forall>(k, q) \<in> set (LoadQuestions fm d). k = q_id q \<and> q \<in> set (questions_in_lines qlines))
       \<and> length (questions_in_lines qlines) = length (filter question_line_well_formed qlines)
       \<and> (distinct (map q_id (questions_in_lines qlines)) \<longrightarrow>
            map snd (LoadQuestions fm d) = questions_in_lines qlines
            \<and> length (LoadQuestions fm d) = length (filter question_line_well_formed qlines))"
  using loaded_users [OF assms(1)] loaded_questions [OF assms(2)]
  by blast

theorem load_skips_malformed_lines_witness:
  "files damaged_disk (users_file_path FileManager_default) = Some damaged_users_file
   \<and> files damaged_disk (questions_file_path FileManager_default) = Some damaged_questions_file
   \<and> length damaged_users_file = 5 \<and> length damaged_questions_file = 4
   \<and> map user_line_well_formed damaged_users_file = [True, False, False, False, True]
   \<and> map question_line_well_formed damaged_questions_file = [True, False, False, True]
   \<and> distinct (map u_id (users_in_lines damaged_users_file))
   \<and> distinct (map q_id (questions_in_lines damaged_questions_file))
   \<and> length (LoadUsers FileManager_default damaged_disk) = 2
   \<and> length (LoadQuestions FileManager_default damaged_disk) = 2
   \<and> map snd (LoadUsers FileManager_default damaged_disk) = users_in_lines damaged_users_file
   \<and> map snd (LoadQuestions FileManager_default damaged_disk) = questions_in_lines damaged_questions_file"
proof -
  have fu: "files damaged_disk (users_file_path FileManager_default) = Some damaged_users_file"
    by (simp add: damaged_disk_def FileManager_default_def)
  have fq: "files damaged_disk (questions_file_path FileManager_default) = Some damaged_questions_file"
    by (simp add: damaged_disk_def FileManager_default_def)
  have len: "length damaged_users_file = 5" "length damaged_questions_file = 4"
    by (simp_all add: damaged_users_file_def damaged_questions_file_def)
  have wf: "map user_line_well_formed damaged_users_file = [True, False, False, False, True]"
    "map question_line_well_formed damaged_questions_file = [True, False, False, True]"
    by code_simp+
  have ids: "map u_id (users_in_lines damaged_users_file) = [1, 3]"
    "map q_id (questions_in_lines damaged_questions_file) = [1, 4]"
    by code_simp+
  have du: "distinct (map u_id (users_in_lines damaged_users_file))"
    and dq: "distinct (map q_id (questions_in_lines damaged_questions_file))"
    by (simp_all add: ids)
  have n: "length (filter user_line_well_formed damaged_users_file) = 2"
    "length (filter question_line_well_formed damaged_questions_file) = 2"
    by code_simp+
  from load_skips_malformed_lines [OF fu fq] du dq n fu fq len wf show ?thesis
    by simp
qed

subsection \<open>The keys of the thread repository\<close>

text \<open>
  A loaded thread repository has pairwise distinct keys, and adding, asking and deleting
  keep them so: the properties above that suppose distinct keys hold in every state
  that the program reaches.
\<close>

lemma distinct_index: "distinct (map fst m) \<Longrightarrow> distinct (map fst (snd (umap_index m k dflt)))"
  by (auto simp: umap_index_def map_of_eq_None_iff split: option.splits)

lemma distinct_delete_each_thread:
  "distinct (map fst qs) \<Longrightarrow> distinct (map fst (delete_each_thread ts actor qs))"
proof (induction ts arbitrary: qs)
  case Nil
  then show ?case by simp
next
  case (Cons t ts)
  obtain thread qs1 where i: "umap_index qs t Question_default = (thread, qs1)"
    by (cases "umap_index qs t Question_default")
  with Cons.prems have "distinct (map fst qs1)"
    using distinct_index[of qs t Question_default] by simp
  then have "distinct (map fst (delete_each_thread ts actor qs1))"
    and "distinct (map fst (delete_each_thread ts actor (snd (umap_erase qs1 t))))"
    by (simp_all add: Cons.IH distinct_erase)
  with i show ?case by simp
qed

lemma distinct_DeleteQuestion:
  assumes "distinct (map fst (questions s))"
  shows "distinct (map fst (questions (snd (DeleteQuestion s question_id actor))))"
proof -
  have "distinct (map fst (questions (DeleteThreadQuestions s' parent_id actor)))"
    if "distinct (map fst (questions s'))" for s' parent_id
    using that by (simp add: DeleteThreadQuestions_def Let_def distinct_delete_each_thread)
  then show ?thesis
    using assms distinct_index[of "questions s" question_id Question_default]
    by (auto simp: DeleteQuestion_def Let_def distinct_erase split: prod.splits)
qed

lemma distinct_AddQuestion:
  "distinct (map fst (questions s)) \<Longrightarrow> distinct (map fst (questions (snd (AddQuestion s question))))"
  using AddQuestion_questions[of s question] by (auto simp: distinct_assign)

lemma distinct_AskQuestion:
  "distinct (map fst (questions s)) \<Longrightarrow> distinct (map fst (questions (AskQuestion s current_user inp)))"
  by (auto simp: AskQuestion_def Let_def distinct_AddQuestion split: sum.splits)

end
